theory Spec2Isabelle
  imports Main "HOL-Library.Word" "HOL-Library.Extended_Nat" "HOL-Library.AList"
begin

section \<open>JavaScript values\<close>

text \<open>
  A JavaScript string is a sequence of UTF-16 code units: \<open>length\<close> and
  \<open>substring\<close> of the source count code units, so a string is a list of 16-bit
  words. \<open>js\<close> embeds an ASCII literal; the literals of the source that are not ASCII are
  given by their code units below.
\<close>

type_synonym jschar = "16 word"
type_synonym jsstring = "jschar list"

definition js :: "string \<Rightarrow> jsstring" where
  "js s = map (\<lambda>c. of_nat (of_char c)) s"

text \<open>
  The values an \<open>any\<close> of the source ranges over, as far as this development goes:
  \<open>undefined\<close>, \<open>null\<close>, booleans, numbers, strings, arrays and objects.

  \<^item> A number with an integral value in the safe range (below \<open>2\<^sup>5\<^sup>3\<close> in absolute value) is
    \<open>JNum\<close> of that value. Any other finite number is \<open>JFloat\<close> of the text that
    \<open>Number::toString\<close> gives for it, such as \<open>0.5\<close>, \<open>1e+21\<close> or \<open>9007199254740992\<close>:
    distinct numbers have distinct texts, so the text stands for the number. \<open>NaN\<close> is
    \<open>JNaN\<close>. (The infinities and the negative zero are left out.)
  \<^item> A plain object is \<open>JObj\<close> of the list of its own enumerable properties, in the order
    in which they are enumerated. (Keys that are canonical array indices, which come
    first in that order whenever they were added, are outside this development.)
  \<^item> \<open>JCustom\<close> is an object whose only own property is a method \<open>toString\<close>, given by
    what a call of the method does: it throws, or it returns a string.

  Callables and class instances have types of their own below. What a \<open>throw\<close> carries
  is an instance of \<open>Error\<close> (with its \<open>name\<close> and \<open>message\<close>), or any other value.
\<close>

datatype jsval =
    JUndefined
  | JNull
  | JBool bool
  | JNum int
  | JFloat jsstring
  | JNaN
  | JStr jsstring
  | JArr "jsval list"
  | JObj "(jsstring \<times> jsval) list"
  | JCustom "thrown + jsstring"
and thrown =
    ErrorObj (err_name: jsstring) (err_message: jsstring)
  | ThrownValue jsval

definition Error :: "jsstring \<Rightarrow> thrown" where
  "Error m = ErrorObj (js ''Error'') m"

definition TypeError :: "jsstring \<Rightarrow> thrown" where
  "TypeError m = ErrorObj (js ''TypeError'') m"

subsection \<open>String coercion\<close>

text \<open>\<open>Number::toString\<close> of an integer in the safe range: its sign and its digits.\<close>

definition digit_char :: "nat \<Rightarrow> jschar" where
  "digit_char d = of_nat (48 + d)"

fun nat_to_string :: "nat \<Rightarrow> jsstring" where
  "nat_to_string n =
     (if n < 10 then [digit_char n] else nat_to_string (n div 10) @ [digit_char (n mod 10)])"

declare nat_to_string.simps [simp del]

definition number_to_string :: "int \<Rightarrow> jsstring" where
  "number_to_string i =
     (if i < 0 then js ''-'' @ nat_to_string (nat (- i)) else nat_to_string (nat i))"

fun join :: "jsstring \<Rightarrow> jsstring list \<Rightarrow> jsstring" where
  "join sep [] = []"
| "join sep [x] = x"
| "join sep (x # y # ys) = x @ sep @ join sep (y # ys)"

text \<open>The first failure of a left-to-right sequence of fallible steps, or all results.\<close>

fun sequence :: "('e + 'a) list \<Rightarrow> 'e + 'a list" where
  "sequence [] = Inr []"
| "sequence (Inl e # _) = Inl e"
| "sequence (Inr x # rs) = (case sequence rs of Inl e \<Rightarrow> Inl e | Inr xs \<Rightarrow> Inr (x # xs))"

text \<open>
  \<open>String(v)\<close>. A plain object answers \<open>[object Object]\<close> through the inherited
  \<open>toString\<close>; when it has an own property \<open>toString\<close> (which is no method: the
  properties of a \<open>JObj\<close> are values) the coercion finds no primitive and throws a
  \<open>TypeError\<close>. An object with a method \<open>toString\<close> of its own answers with what the
  method returns, or throws what the method throws. An array joins its elements by commas,
  \<open>undefined\<close> and \<open>null\<close> elements giving the empty string.
\<close>

definition cannot_convert :: thrown where
  "cannot_convert = TypeError (js ''Cannot convert object to primitive value'')"

fun String_js :: "jsval \<Rightarrow> thrown + jsstring" where
  "String_js JUndefined = Inr (js ''undefined'')"
| "String_js JNull = Inr (js ''null'')"
| "String_js (JBool b) = Inr (if b then js ''true'' else js ''false'')"
| "String_js (JNum i) = Inr (number_to_string i)"
| "String_js (JFloat t) = Inr t"
| "String_js JNaN = Inr (js ''NaN'')"
| "String_js (JStr s) = Inr s"
| "String_js (JArr xs) =
     (case sequence (map (\<lambda>x. if x = JUndefined \<or> x = JNull then Inr [] else String_js x) xs) of
        Inl e \<Rightarrow> Inl e
      | Inr ss \<Rightarrow> Inr (join (js '','') ss))"
| "String_js (JObj kvs) =
     (if js ''toString'' \<in> fst ` set kvs then Inl cannot_convert
      else Inr (js ''[object Object]''))"
| "String_js (JCustom r) = r"

text \<open>
  The string coercion of a thrown value, as a template literal or \<open>String(error)\<close> performs it:
  \<open>Error.prototype.toString\<close> for an \<open>Error\<close>.
\<close>

fun String_thrown :: "thrown \<Rightarrow> thrown + jsstring" where
  "String_thrown (ErrorObj n m) =
     Inr (if n = [] then m else if m = [] then n else n @ js '': '' @ m)"
| "String_thrown (ThrownValue v) = String_js v"

text \<open>Truthiness of a \<open>string | null\<close>: neither \<open>null\<close> nor the empty string.\<close>

definition truthy :: "jsstring option \<Rightarrow> bool" where
  "truthy c = (case c of None \<Rightarrow> False | Some s \<Rightarrow> s \<noteq> [])"

text \<open>\<open>s.substring(0, n) + (s.length > n ? '...' : '')\<close>\<close>

definition truncated :: "nat \<Rightarrow> jsstring \<Rightarrow> jsstring" where
  "truncated n s = take n s @ (if length s > n then js ''...'' else [])"

subsection \<open>Objects as records of properties\<close>

text \<open>
  \<open>{...a, ...b}\<close>: the properties of \<open>b\<close> are assigned in order onto those of \<open>a\<close>; an
  existing key keeps its position and takes the new value, a new key goes to the end.
  (Keys that are canonical array indices, which JavaScript enumerates first, are outside
  this development.)
\<close>

type_synonym ctx = "(jsstring \<times> jsval) list"

definition spread :: "ctx \<Rightarrow> ctx \<Rightarrow> ctx" where
  "spread a b = fold (\<lambda>(k, v). AList.update k v) b a"

section \<open>Messages, tool calls and trace events (\<open>core/types\<close>)\<close>

text \<open>
  A requested tool call \<open>{id, type, function: {name, arguments}}\<close>. The local
  interface \<open>ToolCall\<close> of the orchestrator types \<open>type\<close> as a string.
\<close>

record tool_call =
  tc_id :: jsstring
  tc_type :: jsstring
  tc_name :: jsstring
  tc_arguments :: jsstring

datatype role = System | User | Assistant | Function | Tool

text \<open>
  \<open>Message\<close>; an optional field that is absent is \<open>None\<close>, and so is a \<open>null\<close>
  content. (The field \<open>function_call\<close> is never read or written by the orchestrator.)
\<close>

record message =
  role :: role
  content :: "jsstring option"
  msg_name :: "jsstring option"
  tool_call_id :: "jsstring option"
  tool_calls :: "tool_call list option"

datatype event_type =
  agent_start | agent_end | function_call | function_return | handoff | guardrail_check
  | model_call

record trace_event =
  timestamp :: int
  etype :: event_type
  data :: jsval

text \<open>\<open>InputValidationRule\<close> and \<open>OutputValidationRule\<close>: a validator answers or throws.\<close>

record rule =
  rule_name :: jsstring
  rule_validator :: "jsstring \<Rightarrow> thrown + bool"
  rule_errorMessage :: jsstring

section \<open>Agents, actions and action results (\<open>core/agent\<close>, \<open>core/result\<close>)\<close>

datatype instructions_type = Static jsstring | Dynamic "ctx \<Rightarrow> jsstring"

text \<open>
  An entry of \<open>functions\<close> is a callable or a declarative schema. A callable is its
  \<open>name\<close>, what the two regular expressions of \<open>getFunctionSchemas\<close> extract from its
  source text (the parameter names, and the description, empty without a JSDoc block),
  and what a call \<open>func(contextVariables, ...args)\<close> does: it throws, or returns a
  \<open>Result\<close>, an \<open>Agent\<close> or any other value. Callables are taken to be functions of
  their arguments.

  The fields \<open>id\<close> and \<open>traceEvents\<close> of an agent play no part in a run and are left out;
  an absent list of rules is the empty list, which \<open>validateInput\<close> treats alike.
\<close>

datatype agent =
  Agent (agent_name: jsstring) (model: jsstring) (instructions: instructions_type)
    (agent_functions: "action list") (tool_choice: "jsstring option")
    (inputValidation: "rule list") (outputValidation: "rule list") (maxTokens: int)
    (parallel_tool_calls: "bool option")
and action =
    Callable (fn_name: jsstring) (fn_params: "jsstring list") (fn_doc: jsstring)
      (fn_call: "ctx \<Rightarrow> jsval list \<Rightarrow> outcome")
  | Descriptor jsval
and outcome = Throws thrown | Returns returned
and returned =
    ResultObj (result_value: "jsstring option") (result_agent: "agent option")
      (result_context_variables: "ctx option")
  | AgentObj agent
  | Plain jsval

type_synonym jsfun = "ctx \<Rightarrow> jsval list \<Rightarrow> outcome"

text \<open>\<open>Agent.getInstructions\<close>\<close>

definition getInstructions :: "agent \<Rightarrow> ctx \<Rightarrow> jsstring" where
  "getInstructions a context_variables =
     (case instructions a of Dynamic f \<Rightarrow> f context_variables | Static s \<Rightarrow> s)"

text \<open>\<open>Agent.getFunctionSchemas\<close>\<close>

definition function_schema :: "action \<Rightarrow> jsval" where
  "function_schema fn =
     (case fn of
        Descriptor d \<Rightarrow> d
      | Callable fnName params description _ \<Rightarrow>
          JObj [(js ''type'', JStr (js ''function'')),
                (js ''function'', JObj
                  [(js ''name'', JStr fnName),
                   (js ''description'',
                      JStr (if description \<noteq> [] then description else js ''Function '' @ fnName)),
                   (js ''parameters'', JObj
                     [(js ''type'', JStr (js ''object'')),
                      (js ''properties'',
                         JObj (fold (\<lambda>param acc.
                                  if param \<noteq> js ''context_variables''
                                  then AList.update param (JObj [(js ''type'', JStr (js ''string''))]) acc
                                  else acc) params [])),
                      (js ''required'', JArr [])])])])"

definition getFunctionSchemas :: "agent \<Rightarrow> jsval list" where
  "getFunctionSchemas a = map function_schema (agent_functions a)"

text \<open>
  \<open>Agent.validateInput\<close> and \<open>Agent.validateOutput\<close>: every rule runs; a rule that
  throws contributes a message built from the string coercion of what it threw (a
  coercion that throws in its turn leaves the method).
\<close>

record validation = valid :: bool  errors :: "jsstring list"

fun run_rules :: "rule list \<Rightarrow> jsstring \<Rightarrow> jsstring list \<Rightarrow> thrown + jsstring list" where
  "run_rules [] input errs = Inr errs"
| "run_rules (r # rs) input errs =
     (case rule_validator r input of
        Inr isValid \<Rightarrow> run_rules rs input (if \<not> isValid then errs @ [rule_errorMessage r] else errs)
      | Inl error \<Rightarrow>
          (case String_thrown error of
             Inl e \<Rightarrow> Inl e
           | Inr s \<Rightarrow>
               run_rules rs input
                 (errs @ [js ''Validation error in rule '' @ rule_name r @ js '': '' @ s])))"

definition validate :: "rule list \<Rightarrow> jsstring \<Rightarrow> thrown + validation" where
  "validate rules input =
     (if rules = [] then Inr \<lparr>valid = True, errors = []\<rparr>
      else case run_rules rules input [] of
             Inl e \<Rightarrow> Inl e
           | Inr errs \<Rightarrow> Inr \<lparr>valid = (length errs = 0), errors = errs\<rparr>)"

definition validateInput :: "agent \<Rightarrow> jsstring \<Rightarrow> thrown + validation" where
  "validateInput a input = validate (inputValidation a) input"

definition validateOutput :: "agent \<Rightarrow> jsstring \<Rightarrow> thrown + validation" where
  "validateOutput a output = validate (outputValidation a) output"

section \<open>The runtime the orchestrator relies on\<close>

text \<open>
  What the source takes from its runtime and does not define:
  \<^item> \<open>now n\<close>: the value of the \<open>n\<close>-th reading of \<open>Date.now()\<close> in a run (counted
    from 0);
  \<^item> \<open>parseArguments s\<close>: \<open>Object.values(JSON.parse(s))\<close>, which throws on text that is
    not JSON and on \<open>null\<close>;
  \<^item> \<open>objectPrototype n\<close>: the dispatch table is an object literal, so a name it does
    not own is looked up in \<open>Object.prototype\<close>; \<open>objectPrototype n\<close> is what calling the
    inherited member \<open>n\<close> as a plain function does, \<open>None\<close> when there is no such member.
\<close>

record host =
  now :: "nat \<Rightarrow> int"
  parseArguments :: "jsstring \<Rightarrow> thrown + jsval list"
  objectPrototype :: "jsstring \<Rightarrow> jsfun option"

section \<open>The trace recorder (\<open>tracing\<close>)\<close>

record tracer =
  events :: "trace_event list"
  enabled :: bool

definition addEvent :: "host \<Rightarrow> event_type \<Rightarrow> jsval \<Rightarrow> tracer \<Rightarrow> tracer" where
  "addEvent h ty d t =
     (if \<not> enabled t then t
      else t\<lparr>events := events t @ [\<lparr>timestamp = now h (length (events t)), etype = ty, data = d\<rparr>]\<rparr>)"

definition clear :: "tracer \<Rightarrow> tracer" where
  "clear t = t\<lparr>events := []\<rparr>"

definition getEvents :: "tracer \<Rightarrow> trace_event list" where
  "getEvents t = events t"

section \<open>The model provider\<close>

text \<open>
  The request \<open>createParams\<close> built by \<open>getChatCompletion\<close>, the message
  \<open>response.choices[0].message\<close> that a completion carries (a provider that rejects, or
  answers without such a message, is a throw), and the chunks of a streamed completion
  (\<open>chunk.choices[0].delta\<close>): the stream yields finitely many chunks and then closes or
  throws.
\<close>

record request =
  req_model :: jsstring
  req_messages :: "message list"
  req_tools :: "jsval list option"
  req_tool_choice :: "jsstring option"
  req_max_tokens :: int
  req_parallel_tool_calls :: "bool option"
  req_stream :: bool

record response_message =
  rm_content :: "jsstring option"
  rm_tool_calls :: "tool_call list option"

record tool_call_delta =
  tcd_index :: nat
  tcd_id :: "jsstring option"
  tcd_type :: "jsstring option"
  tcd_function :: "(jsstring option \<times> jsstring option) option"

record delta =
  delta_content :: "jsstring option"
  delta_tool_calls :: "tool_call_delta list option"

record modelProvider =
  createChatCompletion :: "request \<Rightarrow> thrown + response_message"
  createChatCompletionStream :: "request \<Rightarrow> delta list \<times> thrown option"

section \<open>Arrays and objects of a run\<close>

text \<open>
  \<open>run\<close> receives its message array and its context variables by reference, copies
  both, and then pushes onto its copy of the array. Arrays of messages and
  context-variable objects therefore live in a store, addressed by references; \<open>fresh\<close>
  is the next unused reference.
\<close>

type_synonym ref = nat

record store =
  arrays :: "ref \<Rightarrow> message list"
  objects :: "ref \<Rightarrow> ctx"
  fresh :: ref

definition new_array :: "message list \<Rightarrow> store \<Rightarrow> ref \<times> store" where
  "new_array xs st = (fresh st, st\<lparr>arrays := (arrays st)(fresh st := xs), fresh := Suc (fresh st)\<rparr>)"

definition new_object :: "ctx \<Rightarrow> store \<Rightarrow> ref \<times> store" where
  "new_object c st = (fresh st, st\<lparr>objects := (objects st)(fresh st := c), fresh := Suc (fresh st)\<rparr>)"

definition push :: "ref \<Rightarrow> message \<Rightarrow> store \<Rightarrow> store" where
  "push r m st = st\<lparr>arrays := (arrays st)(r := arrays st r @ [m])\<rparr>"

section \<open>The orchestrator (\<open>core/swarm\<close>)\<close>

text \<open>
  The state of a \<open>Swarm\<close> instance is its tracer. Two logs that the source does not keep
  are added to state what a run does: the names of the callables invoked, in order, and
  the number of requests sent to the model provider. (The flag \<open>debug\<close> only prints and
  is left out, as is \<open>console.warn\<close>.)
\<close>

record swarm =
  tracer :: tracer
  invoked :: "jsstring list"
  backend_calls :: nat

definition record_event :: "host \<Rightarrow> event_type \<Rightarrow> jsval \<Rightarrow> swarm \<Rightarrow> swarm" where
  "record_event h ty d sw = sw\<lparr>tracer := addEvent h ty d (tracer sw)\<rparr>"

text \<open>The literals of the source that are not ASCII, by their UTF-16 code units.\<close>

definition msg_function :: jsstring where
  "msg_function = [0x51FD, 0x6570, 0x0020]"

definition msg_execution_error :: jsstring where
  "msg_execution_error = [0x0020, 0x6267, 0x884C, 0x9519, 0x8BEF, 0x003A, 0x0020]"

definition msg_not_found :: jsstring where
  "msg_not_found = [0x0020, 0x672A, 0x627E, 0x5230]"

definition msg_input_validation_failed :: jsstring where
  "msg_input_validation_failed = [0x8F93, 0x5165, 0x9A8C, 0x8BC1, 0x5931, 0x8D25, 0x003A, 0x0020]"

definition msg_cannot_stringify :: jsstring where
  "msg_cannot_stringify =
     [0x51FD, 0x6570, 0x8FD4, 0x56DE, 0x503C, 0x65E0, 0x6CD5, 0x8F6C, 0x6362, 0x4E3A, 0x5B57,
      0x7B26, 0x4E32]"

text \<open>\<open>Swarm.serializeResult\<close>\<close>

definition serializeResult :: "returned \<Rightarrow> thrown + jsval" where
  "serializeResult result =
     (case result of
        AgentObj a \<Rightarrow> Inr (JObj [(js ''agent'', JStr (agent_name a))])
      | ResultObj v ag cv \<Rightarrow>
          Inr (JObj [(js ''value'', case v of None \<Rightarrow> JUndefined | Some s \<Rightarrow> JStr s),
                     (js ''agent'', case ag of Some a \<Rightarrow> JStr (agent_name a) | None \<Rightarrow> JNull),
                     (js ''context_variables'', case cv of None \<Rightarrow> JUndefined | Some c \<Rightarrow> JObj c)])
      | Plain v \<Rightarrow> (case String_js v of Inl e \<Rightarrow> Inl e | Inr s \<Rightarrow> Inr (JStr s)))"

text \<open>\<open>Swarm.handleFunctionResult\<close>\<close>

record function_result =
  fr_message :: "message option"
  fr_agent :: "agent option"
  fr_context_variables :: ctx

definition tool_message :: "jsstring \<Rightarrow> jsstring \<Rightarrow> jsstring \<Rightarrow> message" where
  "tool_message text funcName toolCallId =
     \<lparr>role = Tool, content = Some text, msg_name = Some funcName,
      tool_call_id = Some toolCallId, tool_calls = None\<rparr>"

definition handleFunctionResult ::
  "returned \<Rightarrow> jsstring \<Rightarrow> jsstring \<Rightarrow> thrown + function_result" where
  "handleFunctionResult result funcName toolCallId =
     (case result of
        ResultObj v ag cv \<Rightarrow>
          Inr \<lparr>fr_message =
                 Some (tool_message (case v of Some s \<Rightarrow> s | None \<Rightarrow> []) funcName toolCallId),
               fr_agent = ag,
               fr_context_variables = (case cv of Some c \<Rightarrow> c | None \<Rightarrow> [])\<rparr>
      | AgentObj a \<Rightarrow>
          Inr \<lparr>fr_message = None, fr_agent = Some a, fr_context_variables = []\<rparr>
      | Plain v \<Rightarrow>
          (case (if v \<noteq> JUndefined then String_js v else Inr []) of
             Inl error \<Rightarrow> Inl (TypeError msg_cannot_stringify)
           | Inr resultStr \<Rightarrow>
               Inr \<lparr>fr_message = Some (tool_message resultStr funcName toolCallId),
                    fr_agent = None, fr_context_variables = []\<rparr>))"

text \<open>
  \<open>Swarm.handleToolCalls\<close>. The dispatch table \<open>functionMap\<close> starts as an empty
  object literal, so it answers with the members it inherits until a callable of the
  list takes the name; a later callable of the same name replaces an earlier one.
\<close>

definition functionMap :: "host \<Rightarrow> action list \<Rightarrow> jsstring \<Rightarrow> jsfun option" where
  "functionMap h functions =
     fold (\<lambda>func m. case func of Callable n _ _ f \<Rightarrow> m(n \<mapsto> f) | Descriptor _ \<Rightarrow> m)
       functions (objectPrototype h)"

record tool_response =
  tr_messages :: "message list"
  tr_agent :: "agent option"
  tr_context_variables :: ctx

text \<open>
  The body of the \<open>try\<close> block for one tool call: the swarm as the block leaves it, and
  what it threw or the response as updated.
\<close>

definition try_call ::
  "host \<Rightarrow> jsfun \<Rightarrow> ctx \<Rightarrow> tool_call \<Rightarrow> swarm \<Rightarrow> tool_response \<Rightarrow> swarm \<times> (thrown + tool_response)" where
  "try_call h func contextVariables toolCall sw response =
     (case parseArguments h (tc_arguments toolCall) of
        Inl e \<Rightarrow> (sw, Inl e)
      | Inr parsedArgs \<Rightarrow>
          (let sw1 = sw\<lparr>invoked := invoked sw @ [tc_name toolCall]\<rparr> in
           case func contextVariables parsedArgs of
             Throws e \<Rightarrow> (sw1, Inl e)
           | Returns funcResult \<Rightarrow>
               (case serializeResult funcResult of
                  Inl e \<Rightarrow> (sw1, Inl e)
                | Inr serialized \<Rightarrow>
                    (let sw2 = record_event h function_return
                                 (JObj [(js ''name'', JStr (tc_name toolCall)),
                                        (js ''result'', serialized)]) sw1 in
                     case handleFunctionResult funcResult (tc_name toolCall) (tc_id toolCall) of
                       Inl e \<Rightarrow> (sw2, Inl e)
                     | Inr result \<Rightarrow>
                         (sw2, Inr \<lparr>tr_messages =
                                      (case fr_message result of
                                         Some m \<Rightarrow> tr_messages response @ [m]
                                       | None \<Rightarrow> tr_messages response),
                                    tr_agent =
                                      (case fr_agent result of
                                         Some a \<Rightarrow> Some a
                                       | None \<Rightarrow> tr_agent response),
                                    tr_context_variables =
                                      spread (spread [] (tr_context_variables response))
                                        (fr_context_variables result)\<rparr>)))))"

text \<open>One round of the loop over the requested tool calls, with its \<open>catch\<close> block.\<close>

definition handleToolCall ::
  "host \<Rightarrow> (jsstring \<Rightarrow> jsfun option) \<Rightarrow> ctx \<Rightarrow> tool_call \<Rightarrow> swarm \<Rightarrow> tool_response \<Rightarrow>
   swarm \<times> (thrown + tool_response)" where
  "handleToolCall h fmap contextVariables toolCall sw response =
     (if tc_type toolCall = js ''function'' then
        (let name = tc_name toolCall;
             sw0 = record_event h function_call
                     (JObj [(js ''name'', JStr name),
                            (js ''arguments'', JStr (tc_arguments toolCall))]) sw in
         case fmap name of
           Some func \<Rightarrow>
             (case try_call h func contextVariables toolCall sw0 response of
                (sw1, Inr response') \<Rightarrow> (sw1, Inr response')
              | (sw1, Inl error) \<Rightarrow>
                  (case (case error of ErrorObj _ m \<Rightarrow> Inr m | ThrownValue v \<Rightarrow> String_js v) of
                     Inl e \<Rightarrow> (sw1, Inl e)
                   | Inr errorMessage \<Rightarrow>
                       (record_event h function_return
                          (JObj [(js ''name'', JStr name), (js ''error'', JStr errorMessage)]) sw1,
                        Inr (response\<lparr>tr_messages := tr_messages response @
                               [tool_message (msg_function @ name @ msg_execution_error @ errorMessage)
                                  name (tc_id toolCall)]\<rparr>))))
         | None \<Rightarrow>
             (let errorMessage = msg_function @ name @ msg_not_found in
              (record_event h function_return
                 (JObj [(js ''name'', JStr name), (js ''error'', JStr errorMessage)]) sw0,
               Inr (response\<lparr>tr_messages := tr_messages response @
                      [tool_message errorMessage name (tc_id toolCall)]\<rparr>))))
      else (sw, Inr response))"

fun forToolCalls ::
  "host \<Rightarrow> (jsstring \<Rightarrow> jsfun option) \<Rightarrow> ctx \<Rightarrow> tool_call list \<Rightarrow> swarm \<Rightarrow> tool_response \<Rightarrow>
   swarm \<times> (thrown + tool_response)" where
  "forToolCalls h fmap contextVariables [] sw response = (sw, Inr response)"
| "forToolCalls h fmap contextVariables (toolCall # rest) sw response =
     (case handleToolCall h fmap contextVariables toolCall sw response of
        (sw', Inl e) \<Rightarrow> (sw', Inl e)
      | (sw', Inr response') \<Rightarrow> forToolCalls h fmap contextVariables rest sw' response')"

definition handleToolCalls ::
  "host \<Rightarrow> tool_call list \<Rightarrow> action list \<Rightarrow> ctx \<Rightarrow> swarm \<Rightarrow> swarm \<times> (thrown + tool_response)" where
  "handleToolCalls h toolCalls functions contextVariables sw =
     forToolCalls h (functionMap h functions) contextVariables toolCalls sw
       \<lparr>tr_messages = [], tr_agent = None, tr_context_variables = []\<rparr>"

text \<open>\<open>Swarm.getChatCompletion\<close>: the request it builds, and the two ways it is sent.\<close>

definition createParams ::
  "agent \<Rightarrow> message list \<Rightarrow> ctx \<Rightarrow> jsstring option \<Rightarrow> bool \<Rightarrow> request" where
  "createParams a history context_variables model_override stream =
     (let instructions = getInstructions a context_variables;
          messages = \<lparr>role = System, content = Some instructions, msg_name = None,
                      tool_call_id = None, tool_calls = None\<rparr> # history;
          tools = getFunctionSchemas a
      in \<lparr>req_model = (case model_override of
                          Some m \<Rightarrow> if m \<noteq> [] then m else model a
                        | None \<Rightarrow> model a),
          req_messages = messages,
          req_tools = (if length tools > 0 then Some tools else None),
          req_tool_choice = (if truthy (tool_choice a) then tool_choice a else None),
          req_max_tokens = maxTokens a,
          req_parallel_tool_calls =
            (if length tools > 0 \<and> parallel_tool_calls a \<noteq> None then parallel_tool_calls a
             else None),
          req_stream = stream\<rparr>)"

definition getChatCompletion ::
  "modelProvider \<Rightarrow> agent \<Rightarrow> message list \<Rightarrow> ctx \<Rightarrow> jsstring option \<Rightarrow> thrown + response_message" where
  "getChatCompletion p a history context_variables model_override =
     createChatCompletion p (createParams a history context_variables model_override False)"

definition getChatCompletionStream ::
  "modelProvider \<Rightarrow> agent \<Rightarrow> message list \<Rightarrow> ctx \<Rightarrow> jsstring option \<Rightarrow> delta list \<times> thrown option" where
  "getChatCompletionStream p a history context_variables model_override =
     createChatCompletionStream p (createParams a history context_variables model_override True)"

subsection \<open>\<open>Swarm.run\<close>\<close>

text \<open>The local variables of \<open>run\<close>, with the swarm and the store they act on.\<close>

record run_state =
  this :: swarm
  heap :: store
  currentAgent :: agent
  currentMessages :: ref
  currentContextVars :: ref
  turns :: nat

definition role_name :: "role \<Rightarrow> jsstring" where
  "role_name r =
     (case r of System \<Rightarrow> js ''system'' | User \<Rightarrow> js ''user'' | Assistant \<Rightarrow> js ''assistant''
      | Function \<Rightarrow> js ''function'' | Tool \<Rightarrow> js ''tool'')"

definition input_validation_failure :: "jsstring list \<Rightarrow> jsval" where
  "input_validation_failure errs =
     JObj [(js ''type'', JStr (js ''input_validation'')), (js ''success'', JBool False),
           (js ''errors'', JArr (map JStr errs))]"

definition input_validation_success :: jsval where
  "input_validation_success =
     JObj [(js ''type'', JStr (js ''input_validation'')), (js ''success'', JBool True)]"

definition output_validation_failure :: "jsstring list \<Rightarrow> jsval" where
  "output_validation_failure errs =
     JObj [(js ''type'', JStr (js ''output_validation'')), (js ''success'', JBool False),
           (js ''errors'', JArr (map JStr errs))]"

definition output_validation_success :: jsval where
  "output_validation_success =
     JObj [(js ''type'', JStr (js ''output_validation'')), (js ''success'', JBool True)]"

text \<open>
  The loop \<open>for (const message of currentMessages)\<close> that validates the user messages:
  the swarm as the loop leaves it, and what it threw, if it did.
\<close>

fun validateMessages :: "host \<Rightarrow> agent \<Rightarrow> message list \<Rightarrow> swarm \<Rightarrow> swarm \<times> thrown option" where
  "validateMessages h a [] sw = (sw, None)"
| "validateMessages h a (m # ms) sw =
     (case content m of
        None \<Rightarrow> validateMessages h a ms sw
      | Some c \<Rightarrow>
          if role m = User \<and> c \<noteq> [] then
            (case validateInput a c of
               Inl e \<Rightarrow> (sw, Some e)
             | Inr validationResult \<Rightarrow>
                 if \<not> valid validationResult then
                   (record_event h guardrail_check
                      (input_validation_failure (errors validationResult)) sw,
                    Some (Error (msg_input_validation_failed @
                                 join (js '', '') (errors validationResult))))
                 else validateMessages h a ms
                        (record_event h guardrail_check input_validation_success sw))
          else validateMessages h a ms sw)"

definition model_call_data :: "jsstring option \<Rightarrow> agent \<Rightarrow> message list \<Rightarrow> jsval" where
  "model_call_data model_override a ms =
     JObj [(js ''model'',
              JStr (case model_override of
                      Some m \<Rightarrow> if m \<noteq> [] then m else model a
                    | None \<Rightarrow> model a)),
           (js ''messages'',
              JArr (map (\<lambda>m. JObj [(js ''role'', JStr (role_name (role m))),
                                     (js ''content'',
                                        case content m of
                                          Some c \<Rightarrow> if c \<noteq> [] then JStr (truncated 100 c) else JNull
                                        | None \<Rightarrow> JNull)]) ms))]"

text \<open>The validation of the model's output: recorded, and fatal only when a rule's
  failure cannot be turned into text.\<close>

definition checkOutput :: "host \<Rightarrow> agent \<Rightarrow> jsstring option \<Rightarrow> swarm \<Rightarrow> swarm \<times> thrown option" where
  "checkOutput h a c sw =
     (case c of
        None \<Rightarrow> (sw, None)
      | Some text \<Rightarrow>
          if text \<noteq> [] then
            (case validateOutput a text of
               Inl e \<Rightarrow> (sw, Some e)
             | Inr validationResult \<Rightarrow>
                 if \<not> valid validationResult then
                   (record_event h guardrail_check
                      (output_validation_failure (errors validationResult)) sw, None)
                 else (record_event h guardrail_check output_validation_success sw, None))
          else (sw, None))"

text \<open>The message that \<open>run\<close> adds to the history for the answer of the model.\<close>

definition assistant_message :: "response_message \<Rightarrow> message" where
  "assistant_message responseMessage =
     \<lparr>role = Assistant, content = rm_content responseMessage, msg_name = None,
      tool_call_id = None, tool_calls = rm_tool_calls responseMessage\<rparr>"

text \<open>
  One pass through the body of \<open>while (turns < max_turns)\<close>: the pass throws, leaves the
  loop (\<open>break\<close>), or reaches the end of the body.
\<close>

datatype 's step = Abort thrown 's | Break 's | Continue 's

definition run_body ::
  "host \<Rightarrow> modelProvider \<Rightarrow> bool \<Rightarrow> jsstring option \<Rightarrow> run_state \<Rightarrow> run_state step" where
  "run_body h p execute_tools model_override s =
     (case validateMessages h (currentAgent s) (arrays (heap s) (currentMessages s)) (this s) of
        (sw, Some e) \<Rightarrow> Abort e (s\<lparr>this := sw\<rparr>)
      | (sw, None) \<Rightarrow>
          (let sw1 = record_event h model_call
                       (model_call_data model_override (currentAgent s)
                          (arrays (heap s) (currentMessages s))) sw;
               sw2 = sw1\<lparr>backend_calls := Suc (backend_calls sw1)\<rparr>
           in case getChatCompletion p (currentAgent s) (arrays (heap s) (currentMessages s))
                     (objects (heap s) (currentContextVars s)) model_override of
                Inl e \<Rightarrow> Abort e (s\<lparr>this := sw2\<rparr>)
              | Inr responseMessage \<Rightarrow>
                  (case checkOutput h (currentAgent s) (rm_content responseMessage) sw2 of
                     (sw3, Some e) \<Rightarrow> Abort e (s\<lparr>this := sw3\<rparr>)
                   | (sw3, None) \<Rightarrow>
                       (let heap1 = push (currentMessages s) (assistant_message responseMessage)
                                      (heap s)
                        in case rm_tool_calls responseMessage of
                             None \<Rightarrow> Break (s\<lparr>this := sw3, heap := heap1\<rparr>)
                           | Some toolCalls \<Rightarrow>
                               if length toolCalls > 0 \<and> execute_tools then
                                 (case handleToolCalls h toolCalls
                                         (agent_functions (currentAgent s))
                                         (objects heap1 (currentContextVars s)) sw3 of
                                    (sw4, Inl e) \<Rightarrow>
                                      Abort e (s\<lparr>this := sw4, heap := heap1, turns := Suc (turns s)\<rparr>)
                                  | (sw4, Inr toolCallResult) \<Rightarrow>
                                      (let (msgs, heap2) =
                                             new_array (arrays heap1 (currentMessages s) @
                                                        tr_messages toolCallResult) heap1;
                                           (vars, heap3) =
                                             new_object
                                               (spread (spread [] (objects heap2 (currentContextVars s)))
                                                  (tr_context_variables toolCallResult)) heap2;
                                           s' = s\<lparr>heap := heap3, currentMessages := msgs,
                                                  currentContextVars := vars, turns := Suc (turns s)\<rparr>
                                       in case tr_agent toolCallResult of
                                            Some a \<Rightarrow>
                                              Continue
                                                (s'\<lparr>this := record_event h handoff
                                                     (JObj [(js ''from'', JStr (agent_name (currentAgent s))),
                                                            (js ''to'', JStr (agent_name a)),
                                                            (js ''context_update'',
                                                               JObj (tr_context_variables toolCallResult))])
                                                     sw4,
                                                   currentAgent := a\<rparr>)
                                          | None \<Rightarrow> Break (s'\<lparr>this := sw4\<rparr>)))
                               else Break (s\<lparr>this := sw3, heap := heap1\<rparr>)))))"

text \<open>
  The loop. \<open>max_turns\<close> is a number that defaults to \<open>Infinity\<close>; the test
  \<open>turns < max_turns\<close> sees it as an extended natural number (anything below 1 as 0, a
  fraction as the next integer). With \<open>Infinity\<close> the loop need not end, so not returning
  is the value \<open>None\<close>.
\<close>

partial_function (option) run_loop ::
  "host \<Rightarrow> modelProvider \<Rightarrow> enat \<Rightarrow> bool \<Rightarrow> jsstring option \<Rightarrow> run_state \<Rightarrow>
   (thrown option \<times> run_state) option" where
  "run_loop h p max_turns execute_tools model_override s =
     (if enat (turns s) < max_turns then
        (case run_body h p execute_tools model_override s of
           Abort e s' \<Rightarrow> Some (Some e, s')
         | Break s' \<Rightarrow> Some (None, s')
         | Continue s' \<Rightarrow> run_loop h p max_turns execute_tools model_override s')
      else Some (None, s))"

text \<open>
  \<open>run\<close> with \<open>stream = false\<close>: what the call leaves behind (the swarm and the store)
  and what it threw or the \<open>Response\<close> it returns.
\<close>

record response =
  res_messages :: ref
  res_agent :: agent
  res_context_variables :: ref
  res_trace :: "trace_event list"

definition run_init :: "host \<Rightarrow> swarm \<Rightarrow> store \<Rightarrow> agent \<Rightarrow> ref \<Rightarrow> ref \<Rightarrow> run_state" where
  "run_init h sw st a messages context_variables =
     (let sw0 = sw\<lparr>tracer := clear (tracer sw)\<rparr>;
          (msgs, heap1) = new_array (arrays st messages) st;
          (vars, heap2) = new_object (spread [] (objects heap1 context_variables)) heap1;
          systemInstructions = getInstructions a (objects heap2 vars)
      in \<lparr>this = record_event h agent_start
                   (JObj [(js ''agent'', JStr (agent_name a)),
                          (js ''instructions'', JStr (truncated 200 systemInstructions))]) sw0,
          heap = heap2, currentAgent = a, currentMessages = msgs, currentContextVars = vars,
          turns = 0\<rparr>)"

definition run_finish :: "host \<Rightarrow> thrown option \<times> run_state \<Rightarrow> swarm \<times> store \<times> (thrown + response)" where
  "run_finish h r =
     (case r of
        (Some e, s) \<Rightarrow> (this s, heap s, Inl e)
      | (None, s) \<Rightarrow>
          (let sw = record_event h agent_end (JObj [(js ''agent'', JStr (agent_name (currentAgent s)))])
                      (this s)
           in (sw, heap s,
               Inr \<lparr>res_messages = currentMessages s, res_agent = currentAgent s,
                    res_context_variables = currentContextVars s,
                    res_trace = getEvents (tracer sw)\<rparr>)))"

definition run ::
  "host \<Rightarrow> modelProvider \<Rightarrow> swarm \<Rightarrow> store \<Rightarrow> agent \<Rightarrow> ref \<Rightarrow> ref \<Rightarrow> enat \<Rightarrow> bool \<Rightarrow>
   jsstring option \<Rightarrow> (swarm \<times> store \<times> (thrown + response)) option" where
  "run h p sw st a messages context_variables max_turns execute_tools model_override =
     map_option (run_finish h)
       (run_loop h p max_turns execute_tools model_override
          (run_init h sw st a messages context_variables))"

subsection \<open>\<open>Swarm.runWithStream\<close>\<close>

text \<open>
  The streaming variant is a generator. It is followed here as a consumer that drains it
  sees it: the state carries the steps emitted so far.
\<close>

datatype stream_event =
    stream_start jsstring
  | content_step jsstring
  | tool_call_step tool_call
  | stream_end ref
  | validation_failed "jsstring list"
  | tool_response message
  | handoff_step jsstring jsstring
  | error_step jsstring
  | complete ref agent ref "trace_event list"

record stream_state = run_state +
  emitted :: "stream_event list"

text \<open>The response collected from the chunks, and the steps emitted while collecting.\<close>

record collected =
  col_content :: jsstring
  col_tool_calls :: "tool_call list"
  col_emitted :: "stream_event list"

definition applyToolCallDelta :: "tool_call_delta \<Rightarrow> collected \<Rightarrow> collected" where
  "applyToolCallDelta toolCallDelta c =
     (let toolCallIndex = tcd_index toolCallDelta;
          slots = col_tool_calls c @
                  replicate (Suc toolCallIndex - length (col_tool_calls c))
                    \<lparr>tc_id = [], tc_type = [], tc_name = [], tc_arguments = []\<rparr>;
          t0 = slots ! toolCallIndex;
          t1 = (if truthy (tcd_id toolCallDelta)
                then t0\<lparr>tc_id := case_option [] id (tcd_id toolCallDelta)\<rparr> else t0);
          t2 = (if truthy (tcd_type toolCallDelta)
                then t1\<lparr>tc_type := case_option [] id (tcd_type toolCallDelta)\<rparr> else t1);
          t3 = (case tcd_function toolCallDelta of
                  None \<Rightarrow> t2
                | Some (n, a) \<Rightarrow>
                    (let t' = (if truthy n then t2\<lparr>tc_name := case_option [] id n\<rparr> else t2)
                     in if truthy a
                        then t'\<lparr>tc_arguments := tc_arguments t' @ case_option [] id a\<rparr> else t'))
      in c\<lparr>col_tool_calls := slots[toolCallIndex := t3],
           col_emitted := col_emitted c @ (if tc_name t3 \<noteq> [] then [tool_call_step t3] else [])\<rparr>)"

definition applyDelta :: "delta \<Rightarrow> collected \<Rightarrow> collected" where
  "applyDelta d c =
     (let c1 = (if truthy (delta_content d)
                then c\<lparr>col_content := col_content c @ case_option [] id (delta_content d),
                       col_emitted := col_emitted c @
                         [content_step (case_option [] id (delta_content d))]\<rparr>
                else c)
      in case delta_tool_calls d of
           None \<Rightarrow> c1
         | Some ds \<Rightarrow> fold applyToolCallDelta ds c1)"

definition collect :: "delta list \<Rightarrow> collected" where
  "collect chunks =
     fold applyDelta chunks \<lparr>col_content = [], col_tool_calls = [], col_emitted = []\<rparr>"

text \<open>
  The \<open>try\<close> block of one pass: the state as the block leaves it, and whether it threw,
  reached \<open>continue\<close> (\<open>Inr True\<close>) or fell through to \<open>break\<close> (\<open>Inr False\<close>).
\<close>

definition stream_try ::
  "host \<Rightarrow> modelProvider \<Rightarrow> agent \<Rightarrow> bool \<Rightarrow> jsstring option \<Rightarrow> stream_state \<Rightarrow>
   stream_state \<times> (thrown + bool)" where
  "stream_try h p a execute_tools model_override s =
     (let sw1 = record_event h model_call
                  (model_call_data model_override (currentAgent s)
                     (arrays (heap s) (currentMessages s))) (this s);
          sw2 = sw1\<lparr>backend_calls := Suc (backend_calls sw1)\<rparr>;
          (chunks, failure) =
             getChatCompletionStream p (currentAgent s) (arrays (heap s) (currentMessages s))
               (objects (heap s) (currentContextVars s)) model_override;
          collectedResponseMessage = collect chunks;
          s1 = s\<lparr>this := sw2, emitted := emitted s @ col_emitted collectedResponseMessage\<rparr>
      in case failure of
           Some e \<Rightarrow> (s1, Inl e)
         | None \<Rightarrow>
             (let heap1 = push (currentMessages s)
                            \<lparr>role = Assistant,
                             content = Some (col_content collectedResponseMessage),
                             msg_name = None, tool_call_id = None,
                             tool_calls = Some (col_tool_calls collectedResponseMessage)\<rparr> (heap s);
                  s2 = s1\<lparr>heap := heap1, emitted := emitted s1 @ [stream_end (currentMessages s)]\<rparr>
              in case (if col_content collectedResponseMessage \<noteq> []
                       then map_sum id Some
                              (validateOutput (currentAgent s) (col_content collectedResponseMessage))
                       else Inr None) of
                   Inl e \<Rightarrow> (s2, Inl e)
                 | Inr checked \<Rightarrow>
                     (let s3 = (case checked of
                                  None \<Rightarrow> s2
                                | Some validationResult \<Rightarrow>
                                    if \<not> valid validationResult then
                                      s2\<lparr>this := record_event h guardrail_check
                                                   (output_validation_failure (errors validationResult))
                                                   (this s2),
                                         emitted := emitted s2 @
                                                    [validation_failed (errors validationResult)]\<rparr>
                                    else
                                      s2\<lparr>this := record_event h guardrail_check
                                                   output_validation_success (this s2)\<rparr>)
                      in if length (col_tool_calls collectedResponseMessage) > 0 \<and> execute_tools then
                           (case handleToolCalls h (col_tool_calls collectedResponseMessage)
                                   (agent_functions (currentAgent s))
                                   (objects heap1 (currentContextVars s)) (this s3) of
                              (sw4, Inl e) \<Rightarrow> (s3\<lparr>this := sw4\<rparr>, Inl e)
                            | (sw4, Inr toolCallResult) \<Rightarrow>
                                (let (msgs, heap2) =
                                       new_array (arrays heap1 (currentMessages s) @
                                                  tr_messages toolCallResult) heap1;
                                     (vars, heap3) =
                                       new_object
                                         (spread (spread [] (objects heap2 (currentContextVars s)))
                                            (tr_context_variables toolCallResult)) heap2;
                                     s4 = s3\<lparr>this := sw4, heap := heap3, currentMessages := msgs,
                                             currentContextVars := vars,
                                             emitted := emitted s3 @
                                                        map tool_response (tr_messages toolCallResult)\<rparr>
                                 in case tr_agent toolCallResult of
                                      Some b \<Rightarrow>
                                        (s4\<lparr>this := record_event h handoff
                                                     (JObj [(js ''from'', JStr (agent_name (currentAgent s))),
                                                            (js ''to'', JStr (agent_name b)),
                                                            (js ''context_update'',
                                                               JObj (tr_context_variables toolCallResult))])
                                                     sw4,
                                            currentAgent := b,
                                            emitted := emitted s4 @
                                                       [handoff_step (agent_name a) (agent_name b)]\<rparr>,
                                         Inr True)
                                    | None \<Rightarrow> (s4, Inr False)))
                         else (s3, Inr False))))"

text \<open>One pass through the body of the streaming loop; \<open>a\<close> is the agent the run was
  started with.\<close>

definition stream_body ::
  "host \<Rightarrow> modelProvider \<Rightarrow> agent \<Rightarrow> bool \<Rightarrow> jsstring option \<Rightarrow> stream_state \<Rightarrow>
   stream_state step" where
  "stream_body h p a execute_tools model_override s =
     (case validateMessages h (currentAgent s) (arrays (heap s) (currentMessages s)) (this s) of
        (sw, Some e) \<Rightarrow> Abort e (s\<lparr>this := sw\<rparr>)
      | (sw, None) \<Rightarrow>
          (let s0 = s\<lparr>this := sw, turns := Suc (turns s),
                      emitted := emitted s @ [stream_start (agent_name (currentAgent s))]\<rparr>
           in case stream_try h p a execute_tools model_override s0 of
                (s1, Inr True) \<Rightarrow> Continue s1
              | (s1, Inr False) \<Rightarrow> Break s1
              | (s1, Inl error) \<Rightarrow>
                  (case String_thrown error of
                     Inl e \<Rightarrow> Abort e s1
                   | Inr text \<Rightarrow> Break (s1\<lparr>emitted := emitted s1 @ [error_step text]\<rparr>))))"

partial_function (option) stream_loop ::
  "host \<Rightarrow> modelProvider \<Rightarrow> agent \<Rightarrow> enat \<Rightarrow> bool \<Rightarrow> jsstring option \<Rightarrow> stream_state \<Rightarrow>
   (thrown option \<times> stream_state) option" where
  "stream_loop h p a max_turns execute_tools model_override s =
     (if enat (turns s) < max_turns then
        (case stream_body h p a execute_tools model_override s of
           Abort e s' \<Rightarrow> Some (Some e, s')
         | Break s' \<Rightarrow> Some (None, s')
         | Continue s' \<Rightarrow> stream_loop h p a max_turns execute_tools model_override s')
      else Some (None, s))"

definition stream_finish :: "host \<Rightarrow> thrown option \<times> stream_state \<Rightarrow> thrown option \<times> stream_state" where
  "stream_finish h r =
     (case r of
        (Some e, s) \<Rightarrow> (Some e, s)
      | (None, s) \<Rightarrow>
          (let sw = record_event h agent_end (JObj [(js ''agent'', JStr (agent_name (currentAgent s)))])
                      (this s)
           in (None, s\<lparr>this := sw,
                       emitted := emitted s @
                         [complete (currentMessages s) (currentAgent s) (currentContextVars s)
                            (getEvents (tracer sw))]\<rparr>)))"

text \<open>
  \<open>runWithStream\<close>, drained: what it threw, if it did, and the state it ends in (with
  the steps it emitted).
\<close>

definition runWithStream ::
  "host \<Rightarrow> modelProvider \<Rightarrow> swarm \<Rightarrow> store \<Rightarrow> agent \<Rightarrow> ref \<Rightarrow> ref \<Rightarrow> enat \<Rightarrow> bool \<Rightarrow>
   jsstring option \<Rightarrow> (thrown option \<times> stream_state) option" where
  "runWithStream h p sw st a messages context_variables max_turns execute_tools model_override =
     map_option (stream_finish h)
       (stream_loop h p a max_turns execute_tools model_override
          (run_state.extend (run_init h sw st a messages context_variables)
             \<lparr>emitted = []\<rparr>))"

section \<open>JSON text\<close>

text \<open>
  \<open>JSON.stringify(value, null, 2)\<close> and \<open>JSON.parse(text)\<close> as ECMAScript defines
  them, on the values above. The parser reads a numeral of the JSON grammar; the number
  that a numeral with a fraction, an exponent or a value outside the safe range denotes
  is the nearest double, and its text is taken from the runtime: the parser has a
  parameter for the function that maps such a numeral to the text of its number.
\<close>

subsection \<open>\<open>JSON.stringify\<close>\<close>

definition hex_digit :: "nat \<Rightarrow> jschar" where
  "hex_digit d = (if d < 10 then of_nat (48 + d) else of_nat (87 + d))"

definition hex4 :: "jschar \<Rightarrow> jsstring" where
  "hex4 c =
     (let n = unat c
      in [hex_digit (n div 4096), hex_digit (n div 256 mod 16), hex_digit (n div 16 mod 16),
          hex_digit (n mod 16)])"

definition is_lead :: "jschar \<Rightarrow> bool" where
  "is_lead c = (0xD800 \<le> c \<and> c \<le> 0xDBFF)"

definition is_trail :: "jschar \<Rightarrow> bool" where
  "is_trail c = (0xDC00 \<le> c \<and> c \<le> 0xDFFF)"

text \<open>
  \<open>QuoteJSONString\<close> goes through the code points of the string: a surrogate pair is
  copied, a lone surrogate and a control character are escaped.
\<close>

definition quote_unit :: "jschar \<Rightarrow> jsstring" where
  "quote_unit c =
     (if c = 0x08 then [0x5C, 0x62]
      else if c = 0x09 then [0x5C, 0x74]
      else if c = 0x0A then [0x5C, 0x6E]
      else if c = 0x0C then [0x5C, 0x66]
      else if c = 0x0D then [0x5C, 0x72]
      else if c = 0x22 then [0x5C, 0x22]
      else if c = 0x5C then [0x5C, 0x5C]
      else if c < 0x20 \<or> is_lead c \<or> is_trail c then [0x5C, 0x75] @ hex4 c
      else [c])"

fun quote_units :: "jsstring \<Rightarrow> jsstring" where
  "quote_units [] = []"
| "quote_units [c] = quote_unit c"
| "quote_units (c # d # cs) =
     (if is_lead c \<and> is_trail d then c # d # quote_units cs
      else quote_unit c @ quote_units (d # cs))"

definition QuoteJSONString :: "jsstring \<Rightarrow> jsstring" where
  "QuoteJSONString s = [0x22] @ quote_units s @ [0x22]"

definition gap :: jsstring where
  "gap = js ''  ''"

definition newline :: jsstring where
  "newline = [0x0A]"

text \<open>The text of an array or an object from the texts of its parts.\<close>

definition wrap :: "jschar \<Rightarrow> jschar \<Rightarrow> jsstring \<Rightarrow> jsstring list \<Rightarrow> jsstring" where
  "wrap opening closing stepback partial =
     (if partial = [] then [opening, closing]
      else [opening] @ newline @ stepback @ gap @
           join (js '','' @ newline @ stepback @ gap) partial @
           newline @ stepback @ [closing])"

text \<open>
  \<open>SerializeJSONProperty\<close> with the current indentation; \<open>None\<close> is \<open>undefined\<close>: such a
  property is left out of an object and is \<open>null\<close> in an array. A method is left out of
  an object in the same way, so an object with nothing but a method \<open>toString\<close> is
  written \<open>{}\<close>.
\<close>

fun serialize :: "jsstring \<Rightarrow> jsval \<Rightarrow> jsstring option"
  and serialize_elements :: "jsstring \<Rightarrow> jsval list \<Rightarrow> jsstring list"
  and serialize_members :: "jsstring \<Rightarrow> (jsstring \<times> jsval) list \<Rightarrow> jsstring list" where
  "serialize ind JUndefined = None"
| "serialize ind JNull = Some (js ''null'')"
| "serialize ind (JBool b) = Some (if b then js ''true'' else js ''false'')"
| "serialize ind (JNum i) = Some (number_to_string i)"
| "serialize ind (JFloat t) = Some t"
| "serialize ind JNaN = Some (js ''null'')"
| "serialize ind (JStr s) = Some (QuoteJSONString s)"
| "serialize ind (JArr xs) = Some (wrap 0x5B 0x5D ind (serialize_elements (ind @ gap) xs))"
| "serialize ind (JObj kvs) = Some (wrap 0x7B 0x7D ind (serialize_members (ind @ gap) kvs))"
| "serialize ind (JCustom r) = Some (wrap 0x7B 0x7D ind [])"
| "serialize_elements ind [] = []"
| "serialize_elements ind (x # xs) =
     (case serialize ind x of None \<Rightarrow> js ''null'' | Some t \<Rightarrow> t) # serialize_elements ind xs"
| "serialize_members ind [] = []"
| "serialize_members ind ((k, v) # kvs) =
     (case serialize ind v of
        None \<Rightarrow> serialize_members ind kvs
      | Some t \<Rightarrow> (QuoteJSONString k @ js '': '' @ t) # serialize_members ind kvs)"

definition JSON_stringify :: "jsval \<Rightarrow> jsstring option" where
  "JSON_stringify v = serialize [] v"

subsection \<open>\<open>JSON.parse\<close>\<close>

definition is_ws :: "jschar \<Rightarrow> bool" where
  "is_ws c = (c = 0x20 \<or> c = 0x09 \<or> c = 0x0A \<or> c = 0x0D)"

definition skip_ws :: "jsstring \<Rightarrow> jsstring" where
  "skip_ws s = dropWhile is_ws s"

definition is_digit :: "jschar \<Rightarrow> bool" where
  "is_digit c = (0x30 \<le> c \<and> c \<le> 0x39)"

definition hex_value :: "jschar \<Rightarrow> nat option" where
  "hex_value c =
     (if 0x30 \<le> c \<and> c \<le> 0x39 then Some (unat c - 48)
      else if 0x61 \<le> c \<and> c \<le> 0x66 then Some (unat c - 87)
      else if 0x41 \<le> c \<and> c \<le> 0x46 then Some (unat c - 55)
      else None)"

definition parse_hex4 :: "jsstring \<Rightarrow> (jschar \<times> jsstring) option" where
  "parse_hex4 s =
     (case s of
        a # b # c # d # rest \<Rightarrow>
          (case (hex_value a, hex_value b, hex_value c, hex_value d) of
             (Some x, Some y, Some z, Some w) \<Rightarrow>
               Some (of_nat (x * 4096 + y * 256 + z * 16 + w), rest)
           | _ \<Rightarrow> None)
      | _ \<Rightarrow> None)"

definition unescape :: "jschar \<Rightarrow> jschar option" where
  "unescape e =
     (if e = 0x22 then Some 0x22
      else if e = 0x5C then Some 0x5C
      else if e = 0x2F then Some 0x2F
      else if e = 0x62 then Some 0x08
      else if e = 0x66 then Some 0x0C
      else if e = 0x6E then Some 0x0A
      else if e = 0x72 then Some 0x0D
      else if e = 0x74 then Some 0x09
      else None)"

text \<open>The characters of a string up to its closing quote, and the text after it.\<close>

fun parse_chars :: "jsstring \<Rightarrow> (jsstring \<times> jsstring) option" where
  "parse_chars [] = None"
| "parse_chars (c # cs) =
     (if c = 0x22 then Some ([], cs)
      else if c = 0x5C then
        (case cs of
           [] \<Rightarrow> None
         | e # cs' \<Rightarrow>
             if e = 0x75 then
               (case cs' of
                  a # b # x # d # rest \<Rightarrow>
                    (case parse_hex4 [a, b, x, d] of
                       None \<Rightarrow> None
                     | Some (u, _) \<Rightarrow> map_option (\<lambda>(t, r). (u # t, r)) (parse_chars rest))
                | _ \<Rightarrow> None)
             else
               (case unescape e of
                  None \<Rightarrow> None
                | Some u \<Rightarrow> map_option (\<lambda>(t, r). (u # t, r)) (parse_chars cs')))
      else if c < 0x20 then None
      else map_option (\<lambda>(t, r). (c # t, r)) (parse_chars cs))"

text \<open>The digits at the head of a text, read as a number in base ten.\<close>

fun parse_digits :: "nat \<Rightarrow> jsstring \<Rightarrow> nat \<times> jsstring" where
  "parse_digits acc [] = (acc, [])"
| "parse_digits acc (c # cs) =
     (if is_digit c then parse_digits (acc * 10 + (unat c - 48)) cs else (acc, c # cs))"

definition parse_nat :: "jsstring \<Rightarrow> (nat \<times> jsstring) option" where
  "parse_nat s =
     (case s of
        [] \<Rightarrow> None
      | c # cs \<Rightarrow>
          if c = 0x30 then Some (0, cs)
          else if is_digit c then Some (parse_digits 0 (c # cs))
          else None)"

text \<open>
  The numeral of the JSON grammar at the head of a text, and the text after it: an
  optional minus sign, the integer part (\<open>0\<close>, or digits that do not start with \<open>0\<close>),
  an optional fraction (a point and at least one digit), and an optional exponent (\<open>e\<close> or
  \<open>E\<close>, an optional sign and at least one digit).
\<close>

definition scan_int :: "jsstring \<Rightarrow> (jsstring \<times> jsstring) option" where
  "scan_int s =
     (case s of
        [] \<Rightarrow> None
      | c # cs \<Rightarrow>
          if c = 0x30 then Some ([c], cs)
          else if is_digit c then Some (c # takeWhile is_digit cs, dropWhile is_digit cs)
          else None)"

definition scan_fraction :: "jsstring \<Rightarrow> (jsstring \<times> jsstring) option" where
  "scan_fraction s =
     (case s of
        [] \<Rightarrow> Some ([], [])
      | c # cs \<Rightarrow>
          if c = 0x2E then
            (if takeWhile is_digit cs = [] then None
             else Some (c # takeWhile is_digit cs, dropWhile is_digit cs))
          else Some ([], c # cs))"

definition scan_sign :: "jsstring \<Rightarrow> jsstring \<times> jsstring" where
  "scan_sign s =
     (case s of
        [] \<Rightarrow> ([], [])
      | c # cs \<Rightarrow> if c = 0x2B \<or> c = 0x2D then ([c], cs) else ([], c # cs))"

definition scan_minus :: "jsstring \<Rightarrow> jsstring \<times> jsstring" where
  "scan_minus s =
     (case s of [] \<Rightarrow> ([], []) | c # cs \<Rightarrow> if c = 0x2D then ([c], cs) else ([], c # cs))"

definition scan_exponent :: "jsstring \<Rightarrow> (jsstring \<times> jsstring) option" where
  "scan_exponent s =
     (case s of
        [] \<Rightarrow> Some ([], [])
      | c # cs \<Rightarrow>
          if c = 0x65 \<or> c = 0x45 then
            (case scan_sign cs of
               (sg, ds) \<Rightarrow>
                 if takeWhile is_digit ds = [] then None
                 else Some (c # sg @ takeWhile is_digit ds, dropWhile is_digit ds))
          else Some ([], c # cs))"

definition scan_numeral :: "jsstring \<Rightarrow> (jsstring \<times> jsstring) option" where
  "scan_numeral s =
     (case scan_minus s of
        (dash, r0) \<Rightarrow>
          (case scan_int r0 of
             None \<Rightarrow> None
           | Some (i, r1) \<Rightarrow>
               (case scan_fraction r1 of
                  None \<Rightarrow> None
                | Some (f, r2) \<Rightarrow>
                    (case scan_exponent r2 of
                       None \<Rightarrow> None
                     | Some (e, r3) \<Rightarrow> Some (dash @ i @ f @ e, r3)))))"

text \<open>
  The value of a numeral that has neither fraction nor exponent and lies in the safe
  range.
\<close>

definition integer_of :: "jsstring \<Rightarrow> int option" where
  "integer_of t =
     (case scan_minus t of
        (dash, ds) \<Rightarrow>
          (case parse_nat ds of
             Some (n, []) \<Rightarrow>
               if n < 9007199254740992 then Some (if dash = [] then int n else - int n)
               else None
           | _ \<Rightarrow> None))"

text \<open>
  The number that a numeral denotes. \<open>canonical\<close> is the runtime's part: it maps a numeral
  to the text of the double nearest to it (\<open>Number::toString\<close> of \<open>StringToNumber\<close>),
  which may be the text of a safe integer, as for \<open>1e3\<close>. (The numeral \<open>-0\<close> is read as
  zero.)
\<close>

definition number_of :: "(jsstring \<Rightarrow> jsstring) \<Rightarrow> jsstring \<Rightarrow> jsval" where
  "number_of canonical t =
     (case integer_of t of
        Some i \<Rightarrow> JNum i
      | None \<Rightarrow>
          (case integer_of (canonical t) of
             Some i \<Rightarrow> JNum i
           | None \<Rightarrow> JFloat (canonical t)))"

definition parse_number :: "(jsstring \<Rightarrow> jsstring) \<Rightarrow> jsstring \<Rightarrow> (jsval \<times> jsstring) option" where
  "parse_number canonical s =
     (case scan_numeral s of
        None \<Rightarrow> None
      | Some (t, r) \<Rightarrow> Some (number_of canonical t, r))"

definition starts_with :: "jsstring \<Rightarrow> jsstring \<Rightarrow> jsstring option" where
  "starts_with w s = (if take (length w) s = w then Some (drop (length w) s) else None)"

text \<open>
  A value at the head of a text, and the text after it. The first argument bounds the
  depth of the recursion, and \<open>JSON_parse\<close> gives it more than any text needs.
\<close>

fun parse_value ::
      "(jsstring \<Rightarrow> jsstring) \<Rightarrow> nat \<Rightarrow> jsstring \<Rightarrow> (jsval \<times> jsstring) option"
  and parse_elements ::
      "(jsstring \<Rightarrow> jsstring) \<Rightarrow> nat \<Rightarrow> jsval list \<Rightarrow> jsstring \<Rightarrow> (jsval \<times> jsstring) option"
  and parse_members ::
      "(jsstring \<Rightarrow> jsstring) \<Rightarrow> nat \<Rightarrow> (jsstring \<times> jsval) list \<Rightarrow> jsstring \<Rightarrow>
       (jsval \<times> jsstring) option" where
  "parse_value canonical 0 s = None"
| "parse_value canonical (Suc n) s =
     (case skip_ws s of
        [] \<Rightarrow> None
      | c # cs \<Rightarrow>
          if c = 0x22 then map_option (\<lambda>(t, r). (JStr t, r)) (parse_chars cs)
          else if c = 0x5B then
            (case skip_ws cs of
               [] \<Rightarrow> None
             | d # ds \<Rightarrow>
                 if d = 0x5D then Some (JArr [], ds) else parse_elements canonical n [] (d # ds))
          else if c = 0x7B then
            (case skip_ws cs of
               [] \<Rightarrow> None
             | d # ds \<Rightarrow>
                 if d = 0x7D then Some (JObj [], ds) else parse_members canonical n [] (d # ds))
          else if c = 0x6E then map_option (Pair JNull) (starts_with (js ''null'') (c # cs))
          else if c = 0x74 then map_option (Pair (JBool True)) (starts_with (js ''true'') (c # cs))
          else if c = 0x66 then map_option (Pair (JBool False)) (starts_with (js ''false'') (c # cs))
          else parse_number canonical (c # cs))"
| "parse_elements canonical 0 acc s = None"
| "parse_elements canonical (Suc n) acc s =
     (case parse_value canonical n s of
        None \<Rightarrow> None
      | Some (v, r) \<Rightarrow>
          (case skip_ws r of
             [] \<Rightarrow> None
           | c # cs \<Rightarrow>
               if c = 0x2C then parse_elements canonical n (acc @ [v]) cs
               else if c = 0x5D then Some (JArr (acc @ [v]), cs)
               else None))"
| "parse_members canonical 0 acc s = None"
| "parse_members canonical (Suc n) acc s =
     (case skip_ws s of
        [] \<Rightarrow> None
      | q # qs \<Rightarrow>
          if q = 0x22 then
            (case parse_chars qs of
               None \<Rightarrow> None
             | Some (k, r) \<Rightarrow>
                 (case skip_ws r of
                    [] \<Rightarrow> None
                  | c # cs \<Rightarrow>
                      if c = 0x3A then
                        (case parse_value canonical n cs of
                           None \<Rightarrow> None
                         | Some (v, r') \<Rightarrow>
                             (case skip_ws r' of
                                [] \<Rightarrow> None
                              | e # es \<Rightarrow>
                                  if e = 0x2C then
                                    parse_members canonical n (AList.update k v acc) es
                                  else if e = 0x7D then Some (JObj (AList.update k v acc), es)
                                  else None))
                      else None))
          else None)"

definition JSON_parse :: "(jsstring \<Rightarrow> jsstring) \<Rightarrow> jsstring \<Rightarrow> jsval option" where
  "JSON_parse canonical text =
     (case parse_value canonical (Suc (2 * length text)) text of
        None \<Rightarrow> None
      | Some (v, r) \<Rightarrow> if skip_ws r = [] then Some v else None)"

subsection \<open>\<open>Tracer.exportToJson\<close>\<close>

definition event_type_name :: "event_type \<Rightarrow> jsstring" where
  "event_type_name ty =
     (case ty of
        agent_start \<Rightarrow> js ''agent_start'' | agent_end \<Rightarrow> js ''agent_end''
      | function_call \<Rightarrow> js ''function_call'' | function_return \<Rightarrow> js ''function_return''
      | handoff \<Rightarrow> js ''handoff'' | guardrail_check \<Rightarrow> js ''guardrail_check''
      | model_call \<Rightarrow> js ''model_call'')"

text \<open>An event of the list \<open>events\<close> as the object \<open>{timestamp, type, data}\<close> it is.\<close>

definition event_object :: "trace_event \<Rightarrow> jsval" where
  "event_object e =
     JObj [(js ''timestamp'', JNum (timestamp e)),
           (js ''type'', JStr (event_type_name (etype e))),
           (js ''data'', data e)]"

definition exportToJson :: "tracer \<Rightarrow> jsstring" where
  "exportToJson t = wrap 0x5B 0x5D [] (serialize_elements gap (map event_object (events t)))"

section \<open>A runtime\<close>

text \<open>
  The runtime of the examples below, after ECMAScript. Where the standard leaves the
  message of an error to the engine, the message is V8's or near it; nothing proved
  below depends on such a message.
\<close>

definition msg_undefined_to_object :: jsstring where
  "msg_undefined_to_object = js ''Cannot convert undefined or null to object''"

text \<open>
  \<open>Object.values(v)\<close> for a value that \<open>JSON.parse\<close> returns (so \<open>v\<close> is no object with a
  method).
\<close>

definition object_values :: "jsval \<Rightarrow> thrown + jsval list" where
  "object_values v =
     (case v of
        JObj kvs \<Rightarrow> Inr (map snd kvs)
      | JArr xs \<Rightarrow> Inr xs
      | JStr s \<Rightarrow> Inr (map (\<lambda>c. JStr [c]) s)
      | JUndefined \<Rightarrow> Inl (TypeError msg_undefined_to_object)
      | JNull \<Rightarrow> Inl (TypeError msg_undefined_to_object)
      | _ \<Rightarrow> Inr [])"

text \<open>
  The text of the number that a numeral denotes. The digits of the numeral without the
  zeros in front and at the end are \<open>s\<close>, and \<open>n\<close> is such that the numeral denotes
  \<open>0.s \<times> 10\<^sup>n\<close>.
\<close>

definition exponent_value :: "jsstring \<Rightarrow> int" where
  "exponent_value e =
     (case e of
        [] \<Rightarrow> 0
      | _ # r \<Rightarrow>
          (case scan_sign r of
             (sg, ds) \<Rightarrow>
               if sg = [0x2D] then - int (fst (parse_digits 0 ds))
               else int (fst (parse_digits 0 ds))))"

definition decimal_of :: "jsstring \<Rightarrow> (bool \<times> jsstring \<times> int) option" where
  "decimal_of t =
     (case scan_minus t of
        (dash, r0) \<Rightarrow>
          (case scan_int r0 of
             None \<Rightarrow> None
           | Some (i, r1) \<Rightarrow>
               (case scan_fraction r1 of
                  None \<Rightarrow> None
                | Some (f, r2) \<Rightarrow>
                    (case scan_exponent r2 of
                       None \<Rightarrow> None
                     | Some (e, r3) \<Rightarrow>
                         (let digits = i @ drop 1 f;
                              lead = dropWhile (\<lambda>c. c = 0x30) digits;
                              s = rev (dropWhile (\<lambda>c. c = 0x30) (rev lead));
                              n = int (length i) - int (length digits - length lead)
                                  + exponent_value e
                          in Some (dash \<noteq> [], s, n))))))"

text \<open>\<open>Number::toString\<close> of the number with the digits \<open>s\<close> and the position \<open>n\<close>.\<close>

definition number_text :: "bool \<Rightarrow> jsstring \<Rightarrow> int \<Rightarrow> jsstring" where
  "number_text negative s n =
     (if s = [] then js ''0''
      else
        (if negative then js ''-'' else []) @
        (if int (length s) \<le> n \<and> n \<le> 21 then s @ replicate (nat n - length s) 0x30
         else if 0 < n \<and> n \<le> 21 then take (nat n) s @ js ''.'' @ drop (nat n) s
         else if - 6 < n \<and> n \<le> 0 then js ''0.'' @ replicate (nat (- n)) 0x30 @ s
         else
           (if length s = 1 then s else take 1 s @ js ''.'' @ drop 1 s) @ js ''e'' @
           (if n - 1 < 0 then js ''-'' else js ''+'') @ nat_to_string (nat \<bar>n - 1\<bar>)))"

text \<open>
  \<open>Number::toString\<close> of \<open>StringToNumber\<close>. For a numeral with at most 15 significant
  digits and a magnitude well inside the range of the doubles, the nearest double has
  these digits as its shortest text that reads back (two such numerals with different
  digits denote different doubles). For the other numerals the rounding to the nearest
  double is not computed in this development: they are returned as they are, which is
  right for those that are the text of a number already.
\<close>

definition node_numeral :: "jsstring \<Rightarrow> jsstring" where
  "node_numeral t =
     (case decimal_of t of
        None \<Rightarrow> t
      | Some (negative, s, n) \<Rightarrow>
          if length s \<le> 15 \<and> - 300 \<le> n \<and> n \<le> 300 then number_text negative s n else t)"

definition node_parseArguments :: "jsstring \<Rightarrow> thrown + jsval list" where
  "node_parseArguments s =
     (case JSON_parse node_numeral s of
        None \<Rightarrow> Inl (ErrorObj (js ''SyntaxError'') (js ''Unexpected token in JSON''))
      | Some v \<Rightarrow> object_values v)"

text \<open>
  The members of \<open>Object.prototype\<close>, called as plain functions (\<open>this\<close> is
  \<open>undefined\<close>) with the context variables as first argument: \<open>Object\<close> returns its
  argument, \<open>toString\<close> answers for \<open>undefined\<close>, \<open>__proto__\<close> is not callable, and the
  others fail to turn \<open>this\<close> into an object (the two that take a property key first
  coerce their argument to a string).
\<close>

definition node_objectPrototype :: "jsstring \<Rightarrow> jsfun option" where
  "node_objectPrototype n =
     (if n = js ''constructor'' then Some (\<lambda>cv args. Returns (Plain (JObj cv)))
      else if n = js ''toString'' then
        Some (\<lambda>cv args. Returns (Plain (JStr (js ''[object Undefined]''))))
      else if n = js ''__proto__'' then
        Some (\<lambda>cv args. Throws (TypeError (js ''func is not a function'')))
      else if n = js ''hasOwnProperty'' \<or> n = js ''propertyIsEnumerable'' then
        Some (\<lambda>cv args. case String_js (JObj cv) of
                            Inl e \<Rightarrow> Throws e
                          | Inr _ \<Rightarrow> Throws (TypeError msg_undefined_to_object))
      else if n = js ''valueOf'' \<or> n = js ''toLocaleString'' \<or> n = js ''isPrototypeOf''
              \<or> n = js ''__defineGetter__'' \<or> n = js ''__defineSetter__''
              \<or> n = js ''__lookupGetter__'' \<or> n = js ''__lookupSetter__'' then
        Some (\<lambda>cv args. Throws (TypeError msg_undefined_to_object))
      else None)"

definition node_host :: host where
  "node_host =
     \<lparr>now = (\<lambda>n. 1700000000000 + int n),
      parseArguments = node_parseArguments,
      objectPrototype = node_objectPrototype\<rparr>"

section \<open>Notions used to state the properties\<close>

text \<open>Every user message with a text passes the input rules of the agent.\<close>

definition accepts :: "agent \<Rightarrow> message list \<Rightarrow> bool" where
  "accepts a ms =
     list_all (\<lambda>m. case content m of
                     None \<Rightarrow> True
                   | Some c \<Rightarrow>
                       role m \<noteq> User \<or> c = [] \<or>
                       (case validateInput a c of Inl _ \<Rightarrow> False | Inr v \<Rightarrow> valid v)) ms"

text \<open>Some user message with a text is rejected by an input rule of the agent.\<close>

definition rejects :: "agent \<Rightarrow> message list \<Rightarrow> bool" where
  "rejects a ms =
     list_ex (\<lambda>m. case content m of
                    None \<Rightarrow> False
                  | Some c \<Rightarrow>
                      role m = User \<and> c \<noteq> [] \<and>
                      (case validateInput a c of Inl _ \<Rightarrow> False | Inr v \<Rightarrow> \<not> valid v)) ms"

text \<open>The callable that the action list has for a name: the last one of that name.\<close>

fun listed :: "action list \<Rightarrow> jsstring \<Rightarrow> jsfun option" where
  "listed [] n = None"
| "listed (f # fs) n =
     (case listed fs n of
        Some g \<Rightarrow> Some g
      | None \<Rightarrow>
          (case f of
             Callable m _ _ g \<Rightarrow> if m = n then Some g else None
           | Descriptor _ \<Rightarrow> None))"

text \<open>
  A name that the dispatch finds nowhere: no callable of the list has it, and the object
  literal that is the dispatch table inherits no member of that name.
\<close>

definition unknown_to :: "host \<Rightarrow> action list \<Rightarrow> jsstring \<Rightarrow> bool" where
  "unknown_to h fs n =
     (objectPrototype h n = None \<and>
      list_all (\<lambda>f. case f of Callable m _ _ _ \<Rightarrow> m \<noteq> n | Descriptor _ \<Rightarrow> True) fs)"

text \<open>The tool message for a requested call whose name is not found.\<close>

definition not_found_message :: "tool_call \<Rightarrow> message" where
  "not_found_message toolCall =
     tool_message (msg_function @ tc_name toolCall @ msg_not_found) (tc_name toolCall)
       (tc_id toolCall)"

text \<open>The events of a kind in the trace of a swarm.\<close>

definition events_of :: "event_type \<Rightarrow> swarm \<Rightarrow> trace_event list" where
  "events_of ty sw = filter (\<lambda>e. etype e = ty) (events (tracer sw))"

text \<open>
  The context-variable delta that one requested call produces: the \<open>context_variables\<close>
  of the \<open>Result\<close> its callable returns, and nothing when the call is skipped, fails or
  returns anything else.
\<close>

definition call_delta :: "host \<Rightarrow> (jsstring \<Rightarrow> jsfun option) \<Rightarrow> ctx \<Rightarrow> tool_call \<Rightarrow> ctx" where
  "call_delta h fmap contextVariables toolCall =
     (if tc_type toolCall = js ''function'' then
        (case fmap (tc_name toolCall) of
           None \<Rightarrow> []
         | Some func \<Rightarrow>
             (case parseArguments h (tc_arguments toolCall) of
                Inl _ \<Rightarrow> []
              | Inr parsedArgs \<Rightarrow>
                  (case func contextVariables parsedArgs of
                     Returns (ResultObj _ _ (Some d)) \<Rightarrow> d
                   | _ \<Rightarrow> [])))
      else [])"

text \<open>
  The properties of an object, as a map. (Should a list name a key twice, which no object
  does, the later entry counts, as in an object literal.)
\<close>

definition props :: "ctx \<Rightarrow> (jsstring \<rightharpoonup> jsval)" where
  "props d = map_of (rev d)"

text \<open>Deltas merged from left to right onto a map: a later one wins on a key they share.\<close>

definition merged :: "(jsstring \<rightharpoonup> jsval) \<Rightarrow> ctx list \<Rightarrow> (jsstring \<rightharpoonup> jsval)" where
  "merged m ds = foldl (\<lambda>m d. m ++ props d) m ds"

text \<open>The state a pass of the loop ends in.\<close>

definition state_of :: "'s step \<Rightarrow> 's" where
  "state_of r = (case r of Abort _ s \<Rightarrow> s | Break s \<Rightarrow> s | Continue s \<Rightarrow> s)"

text \<open>
  A pass of \<open>run\<close> gets as far as executing tools: the input is valid, the provider
  answers, the check of the output does not throw, and the answer requests tool calls
  while \<open>execute_tools\<close> is set.
\<close>

definition executes_tools :: "host \<Rightarrow> modelProvider \<Rightarrow> bool \<Rightarrow> jsstring option \<Rightarrow> run_state \<Rightarrow> bool" where
  "executes_tools h p execute_tools model_override s =
     (case validateMessages h (currentAgent s) (arrays (heap s) (currentMessages s)) (this s) of
        (_, Some _) \<Rightarrow> False
      | (sw, None) \<Rightarrow>
          (case getChatCompletion p (currentAgent s) (arrays (heap s) (currentMessages s))
                  (objects (heap s) (currentContextVars s)) model_override of
             Inl _ \<Rightarrow> False
           | Inr responseMessage \<Rightarrow>
               (case checkOutput h (currentAgent s) (rm_content responseMessage) sw of
                  (_, Some _) \<Rightarrow> False
                | (_, None) \<Rightarrow>
                    (case rm_tool_calls responseMessage of
                       None \<Rightarrow> False
                     | Some toolCalls \<Rightarrow> toolCalls \<noteq> [] \<and> execute_tools))))"

text \<open>
  A \<open>JFloat\<close> stands for a number when its text is a numeral, not that of a safe integer
  (which is a \<open>JNum\<close>), and is the text that the runtime gives for the number it denotes.
\<close>

definition float_text :: "(jsstring \<Rightarrow> jsstring) \<Rightarrow> jsstring \<Rightarrow> bool" where
  "float_text canonical t =
     (scan_numeral t = Some (t, []) \<and> integer_of t = None \<and> canonical t = t)"

text \<open>
  Values that JSON text holds as they are: \<open>null\<close>, booleans, finite numbers, strings,
  arrays and plain objects of such values; there is no \<open>undefined\<close>, no \<open>NaN\<close> and no
  method anywhere in them. (The keys of an object are distinct, a \<open>JNum\<close> is in the safe
  range and a \<open>JFloat\<close> stands for a number, as they are for every value of a program.)
\<close>

fun json_safe :: "(jsstring \<Rightarrow> jsstring) \<Rightarrow> jsval \<Rightarrow> bool"
  and json_safe_list :: "(jsstring \<Rightarrow> jsstring) \<Rightarrow> jsval list \<Rightarrow> bool"
  and json_safe_members :: "(jsstring \<Rightarrow> jsstring) \<Rightarrow> (jsstring \<times> jsval) list \<Rightarrow> bool" where
  "json_safe canonical JUndefined = False"
| "json_safe canonical JNaN = False"
| "json_safe canonical JNull = True"
| "json_safe canonical (JBool b) = True"
| "json_safe canonical (JNum i) = (\<bar>i\<bar> < 9007199254740992)"
| "json_safe canonical (JFloat t) = float_text canonical t"
| "json_safe canonical (JStr s) = True"
| "json_safe canonical (JArr xs) = json_safe_list canonical xs"
| "json_safe canonical (JObj kvs) =
     (distinct (map fst kvs) \<and> json_safe_members canonical kvs)"
| "json_safe canonical (JCustom r) = False"
| "json_safe_list canonical [] = True"
| "json_safe_list canonical (x # xs) = (json_safe canonical x \<and> json_safe_list canonical xs)"
| "json_safe_members canonical [] = True"
| "json_safe_members canonical ((k, v) # kvs) =
     (json_safe canonical v \<and> json_safe_members canonical kvs)"

text \<open>The check of the model's output does not throw.\<close>

definition output_checked :: "agent \<Rightarrow> jsstring option \<Rightarrow> bool" where
  "output_checked a c =
     (case c of
        None \<Rightarrow> True
      | Some text \<Rightarrow> text = [] \<or> (case validateOutput a text of Inl _ \<Rightarrow> False | Inr _ \<Rightarrow> True))"

text \<open>What a call of \<open>run\<close> that ends leaves to its caller.\<close>

definition final_messages :: "(swarm \<times> store \<times> (thrown + response)) option \<Rightarrow> message list option" where
  "final_messages r =
     (case r of Some (_, st, Inr res) \<Rightarrow> Some (arrays st (res_messages res)) | _ \<Rightarrow> None)"

definition final_context :: "(swarm \<times> store \<times> (thrown + response)) option \<Rightarrow> ctx option" where
  "final_context r =
     (case r of Some (_, st, Inr res) \<Rightarrow> Some (objects st (res_context_variables res)) | _ \<Rightarrow> None)"

definition final_error :: "(swarm \<times> store \<times> (thrown + response)) option \<Rightarrow> thrown option" where
  "final_error r = (case r of Some (_, _, Inl e) \<Rightarrow> Some e | _ \<Rightarrow> None)"

definition final_swarm :: "(swarm \<times> store \<times> (thrown + response)) option \<Rightarrow> swarm option" where
  "final_swarm r = (case r of Some (sw, _, _) \<Rightarrow> Some sw | None \<Rightarrow> None)"

text \<open>The turn counter at the end of a loop.\<close>

definition final_turns :: "(thrown option \<times> 'a run_state_scheme) option \<Rightarrow> nat option" where
  "final_turns r = map_option (\<lambda>(_, s). turns s) r"

text \<open>
  The run works above \<open>k\<close>: the array and the object it works on are at \<open>k\<close> or above,
  and allocated. From one state to a later one, the store below \<open>k\<close> stays as it is and
  the working array only grows at its end.
\<close>

definition works_above :: "ref \<Rightarrow> 'a run_state_scheme \<Rightarrow> bool" where
  "works_above k s =
     (k \<le> currentMessages s \<and> currentMessages s < fresh (heap s) \<and> k \<le> currentContextVars s)"

definition extends :: "ref \<Rightarrow> 'a run_state_scheme \<Rightarrow> 'b run_state_scheme \<Rightarrow> bool" where
  "extends k s s' =
     ((\<forall>x<k. arrays (heap s') x = arrays (heap s) x \<and> objects (heap s') x = objects (heap s) x) \<and>
      (\<exists>new. arrays (heap s') (currentMessages s') = arrays (heap s) (currentMessages s) @ new) \<and>
      works_above k s')"

definition final_store :: "(swarm \<times> store \<times> (thrown + response)) option \<Rightarrow> store option" where
  "final_store r = (case r of Some (_, st, _) \<Rightarrow> Some st | None \<Rightarrow> None)"

section \<open>Agents, providers and stores of the examples\<close>

definition user_says :: "jsstring \<Rightarrow> message" where
  "user_says text =
     \<lparr>role = User, content = Some text, msg_name = None, tool_call_id = None, tool_calls = None\<rparr>"

definition assistant_says :: "jsstring \<Rightarrow> message" where
  "assistant_says text =
     \<lparr>role = Assistant, content = Some text, msg_name = None, tool_call_id = None,
      tool_calls = None\<rparr>"

definition assistant_calls :: "tool_call list \<Rightarrow> message" where
  "assistant_calls tcs =
     \<lparr>role = Assistant, content = None, msg_name = None, tool_call_id = None,
      tool_calls = Some tcs\<rparr>"

definition system_says :: "jsstring \<Rightarrow> message" where
  "system_says text =
     \<lparr>role = System, content = Some text, msg_name = None, tool_call_id = None,
      tool_calls = None\<rparr>"

text \<open>An agent as the constructor of \<open>Agent\<close> makes it from a name and a list of actions.\<close>

definition new_agent :: "jsstring \<Rightarrow> action list \<Rightarrow> agent" where
  "new_agent n fs =
     Agent n (js ''gpt-4o'') (Static (js ''You are a helpful agent.'')) fs None [] [] 16385
       (Some True)"

text \<open>A swarm whose tracer is enabled, and a store that holds one user message (at
  reference 0) and no context variables (at reference 1).\<close>

definition new_swarm :: swarm where
  "new_swarm = \<lparr>tracer = \<lparr>events = [], enabled = True\<rparr>, invoked = [], backend_calls = 0\<rparr>"

definition hi_store :: store where
  "hi_store = \<lparr>arrays = (\<lambda>_. [])(0 := [user_says (js ''Hi'')]), objects = (\<lambda>_. []), fresh = 2\<rparr>"

text \<open>A provider that answers with a text, batched or as one chunk.\<close>

definition says :: "jsstring \<Rightarrow> modelProvider" where
  "says text =
     \<lparr>createChatCompletion = (\<lambda>_. Inr \<lparr>rm_content = Some text, rm_tool_calls = None\<rparr>),
      createChatCompletionStream =
        (\<lambda>_. ([\<lparr>delta_content = Some text, delta_tool_calls = None\<rparr>], None))\<rparr>"

text \<open>A provider that requests tool calls until the history holds an assistant message,
  and then answers with a text.\<close>

definition requests :: "tool_call list \<Rightarrow> modelProvider" where
  "requests tcs =
     \<lparr>createChatCompletion =
        (\<lambda>req. if list_ex (\<lambda>m. role m = Assistant) (req_messages req)
               then Inr \<lparr>rm_content = Some (js ''Done''), rm_tool_calls = None\<rparr>
               else Inr \<lparr>rm_content = None, rm_tool_calls = Some tcs\<rparr>),
      createChatCompletionStream = (\<lambda>_. ([], None))\<rparr>"

definition call_of :: "jsstring \<Rightarrow> jsstring \<Rightarrow> tool_call" where
  "call_of i n = \<lparr>tc_id = i, tc_type = js ''function'', tc_name = n, tc_arguments = js ''{}''\<rparr>"

text \<open>A callable without parameters or documentation.\<close>

definition callable :: "jsstring \<Rightarrow> jsfun \<Rightarrow> action" where
  "callable n f = Callable n [js ''context_variables''] [] f"

text \<open>An agent whose input rule rejects every text, and an agent that hands over to it.\<close>

definition strict_agent :: agent where
  "strict_agent =
     Agent (js ''Strict'') (js ''gpt-4o'') (Static (js ''You are strict.'')) [] None
       [\<lparr>rule_name = js ''never'', rule_validator = (\<lambda>_. Inr False),
         rule_errorMessage = js ''no''\<rparr>]
       [] 16385 (Some True)"

definition front_agent :: agent where
  "front_agent =
     new_agent (js ''Front'') [callable (js ''transfer'') (\<lambda>_ _. Returns (AgentObj strict_agent))]"

text \<open>An agent with one action that returns a text.\<close>

definition ping_agent :: agent where
  "ping_agent =
     new_agent (js ''Pinger'') [callable (js ''ping'') (\<lambda>_ _. Returns (Plain (JStr (js ''pong''))))]"

text \<open>
  The object \<open>{toString: null}\<close>, which has no string coercion; an agent whose action
  returns it, and an agent whose action throws it.
\<close>

definition unprintable :: jsval where
  "unprintable = JObj [(js ''toString'', JNull)]"

definition bad_agent :: agent where
  "bad_agent = new_agent (js ''Bad'') [callable (js ''bad'') (\<lambda>_ _. Returns (Plain unprintable))]"

definition boom_agent :: agent where
  "boom_agent =
     new_agent (js ''Boom'') [callable (js ''boom'') (\<lambda>_ _. Throws (ThrownValue unprintable))]"

text \<open>A requested call whose type is not \<open>function\<close>.\<close>

definition custom_call :: tool_call where
  "custom_call =
     \<lparr>tc_id = js ''1'', tc_type = js ''custom'', tc_name = js ''foo'', tc_arguments = js ''{}''\<rparr>"

text \<open>An agent with two actions that set the context variable \<open>a\<close>, to 1 and to 2
  (scenario C).\<close>

definition setter_agent :: agent where
  "setter_agent =
     new_agent (js ''Setter'')
       [callable (js ''setA1'') (\<lambda>_ _. Returns (ResultObj None None (Some [(js ''a'', JNum 1)]))),
        callable (js ''setA2'') (\<lambda>_ _. Returns (ResultObj None None (Some [(js ''a'', JNum 2)])))]"

text \<open>The tracer after one hand-off from \<open>A\<close> to \<open>B\<close> whose context update is
  \<open>{score: v}\<close>.\<close>

definition handoff_trace :: "jsval \<Rightarrow> tracer" where
  "handoff_trace v =
     addEvent node_host handoff
       (JObj [(js ''from'', JStr (js ''A'')), (js ''to'', JStr (js ''B'')),
              (js ''context_update'', JObj [(js ''score'', v)])])
       (tracer new_swarm)"

text \<open>
  An object whose method \<open>toString\<close> throws \<open>new Error("no text")\<close>, and an agent with an
  action that returns it and an action that returns a text.
\<close>

definition wordless :: jsval where
  "wordless = JCustom (Inl (Error (js ''no text'')))"

definition wordless_agent :: agent where
  "wordless_agent =
     new_agent (js ''Wordless'')
       [callable (js ''mute'') (\<lambda>_ _. Returns (Plain wordless)),
        callable (js ''ping'') (\<lambda>_ _. Returns (Plain (JStr (js ''pong''))))]"

section \<open>Basic facts\<close>

lemma new_array_simps [simp]:
  "fst (new_array xs st) = fresh st"
  "arrays (snd (new_array xs st)) = (arrays st)(fresh st := xs)"
  "objects (snd (new_array xs st)) = objects st"
  "fresh (snd (new_array xs st)) = Suc (fresh st)"
  by (simp_all add: new_array_def)

lemma new_object_simps [simp]:
  "fst (new_object c st) = fresh st"
  "arrays (snd (new_object c st)) = arrays st"
  "objects (snd (new_object c st)) = (objects st)(fresh st := c)"
  "fresh (snd (new_object c st)) = Suc (fresh st)"
  by (simp_all add: new_object_def)

lemma push_simps [simp]:
  "arrays (push r m st) = (arrays st)(r := arrays st r @ [m])"
  "objects (push r m st) = objects st"
  "fresh (push r m st) = fresh st"
  by (simp_all add: push_def)

lemma record_event_simps [simp]:
  "invoked (record_event h ty d sw) = invoked sw"
  "backend_calls (record_event h ty d sw) = backend_calls sw"
  "enabled (tracer (record_event h ty d sw)) = enabled (tracer sw)"
  by (simp_all add: record_event_def addEvent_def)

lemma events_of_record_event:
  "events_of ty (record_event h ty' d sw) =
     events_of ty sw @
     (if enabled (tracer sw) \<and> ty' = ty
      then [\<lparr>timestamp = now h (length (events (tracer sw))), etype = ty', data = d\<rparr>] else [])"
  by (simp add: events_of_def record_event_def addEvent_def)

text \<open>Validation only adds \<open>guardrail_check\<close> events.\<close>

lemma validateMessages_frame:
  "validateMessages h a ms sw = (sw', r) \<Longrightarrow>
     invoked sw' = invoked sw \<and> backend_calls sw' = backend_calls sw \<and>
     enabled (tracer sw') = enabled (tracer sw) \<and>
     events_of model_call sw' = events_of model_call sw"
proof (induction ms arbitrary: sw)
  case Nil
  then show ?case by simp
next
  case (Cons m ms)
  then show ?case
    by (auto simp: events_of_record_event split: option.splits if_splits sum.splits)
qed

lemma validateMessages_accepts:
  "accepts a ms \<Longrightarrow> snd (validateMessages h a ms sw) = None"
  by (induction ms arbitrary: sw) (auto simp: accepts_def split: option.splits sum.splits)

lemma validateMessages_rejects:
  "rejects a ms \<Longrightarrow> snd (validateMessages h a ms sw) \<noteq> None"
  by (induction ms arbitrary: sw) (auto simp: rejects_def split: option.splits sum.splits)

lemma checkOutput_frame:
  "checkOutput h a c sw = (sw', r) \<Longrightarrow>
     invoked sw' = invoked sw \<and> backend_calls sw' = backend_calls sw \<and>
     enabled (tracer sw') = enabled (tracer sw) \<and>
     events_of model_call sw' = events_of model_call sw"
  by (auto simp: checkOutput_def events_of_record_event split: option.splits if_splits sum.splits)

lemma checkOutput_ok:
  "validateOutput a text = Inr v \<Longrightarrow> snd (checkOutput h a (Some text) sw) = None"
  by (auto simp: checkOutput_def split: option.splits if_splits sum.splits)

lemma run_init_simps [simp]:
  "currentAgent (run_init h sw st a messages context_variables) = a"
  "turns (run_init h sw st a messages context_variables) = 0"
  "currentMessages (run_init h sw st a messages context_variables) = fresh st"
  "currentContextVars (run_init h sw st a messages context_variables) = Suc (fresh st)"
  "arrays (heap (run_init h sw st a messages context_variables)) =
     (arrays st)(fresh st := arrays st messages)"
  "objects (heap (run_init h sw st a messages context_variables)) =
     (objects st)(Suc (fresh st) := spread [] (objects st context_variables))"
  "fresh (heap (run_init h sw st a messages context_variables)) = Suc (Suc (fresh st))"
  "invoked (this (run_init h sw st a messages context_variables)) = invoked sw"
  "backend_calls (this (run_init h sw st a messages context_variables)) = backend_calls sw"
  "enabled (tracer (this (run_init h sw st a messages context_variables))) = enabled (tracer sw)"
  "events_of model_call (this (run_init h sw st a messages context_variables)) = []"
  by (simp_all add: run_init_def Let_def split_beta clear_def events_of_record_event)
     (simp_all add: events_of_def)

text \<open>The definitions that evaluating a run on given arguments goes through.\<close>

lemmas run_defs =
  run_def run_init_def run_finish_def run_body_def new_array_def new_object_def push_def
  spread_def clear_def record_event_def addEvent_def getEvents_def validateInput_def
  validateOutput_def validate_def getChatCompletion_def createParams_def checkOutput_def
  handleToolCalls_def handleToolCall_def try_call_def functionMap_def serializeResult_def
  handleFunctionResult_def tool_message_def getInstructions_def getFunctionSchemas_def
  assistant_message_def
  truthy_def Let_def

lemmas example_defs =
  node_host_def node_parseArguments_def node_objectPrototype_def object_values_def
  new_agent_def new_swarm_def hi_store_def says_def requests_def call_of_def callable_def
  user_says_def assistant_says_def assistant_calls_def system_says_def
  final_messages_def final_context_def final_error_def final_swarm_def
  strict_agent_def front_agent_def ping_agent_def


subsection \<open>Literals\<close>

lemma js_inject [simp]: "js s = js t \<longleftrightarrow> s = t"
proof -
  have "inj (\<lambda>c::char. (of_nat (of_char c) :: 16 word))"
  proof (rule injI)
    fix c d :: char
    assume "(of_nat (of_char c) :: 16 word) = of_nat (of_char d)"
    then have "take_bit 16 (of_char c :: nat) = take_bit 16 (of_char d :: nat)"
      by (simp add: word_of_nat_eq_iff)
    moreover have "(of_char x :: nat) < 256" for x
      by (metis of_char_mod_256 mod_less_divisor zero_less_numeral)
    then have "(of_char c :: nat) < 2 ^ 16" "(of_char d :: nat) < 2 ^ 16"
      using less_trans [of "of_char c :: nat" 256 "2 ^ 16"]
        less_trans [of "of_char d :: nat" 256 "2 ^ 16"] by simp_all
    ultimately show "c = d"
      by (simp add: take_bit_nat_eq_self)
  qed
  then show ?thesis
    by (simp add: js_def inj_map_eq_map)
qed

lemma js_Nil [simp]: "js s = [] \<longleftrightarrow> s = []" "[] = js s \<longleftrightarrow> s = []"
  by (auto simp: js_def)

lemma js_unfold:
  "js [] = []"
  "js (c # s) = of_nat (of_char c) # js s"
  by (simp_all add: js_def)



lemmas parse_numeral =
  parse_value.simps(2) [where n = "pred_numeral k" for k, folded numeral_eq_Suc]
  parse_elements.simps(2) [where n = "pred_numeral k" for k, folded numeral_eq_Suc]
  parse_members.simps(2) [where n = "pred_numeral k" for k, folded numeral_eq_Suc]

lemma JSON_parse_empty_object [simp]: "JSON_parse canonical (js ''{}'') = Some (JObj [])"
  by (simp add: JSON_parse_def js_unfold skip_ws_def is_ws_def parse_numeral)

lemma node_parseArguments_empty [simp]:
  "node_parseArguments (js ''{}'') = Inr []"
  "parseArguments node_host (js ''{}'') = Inr []"
  by (simp_all add: node_host_def node_parseArguments_def object_values_def)




lemma hi_store_simps [simp]:
  "arrays hi_store 0 = [user_says (js ''Hi'')]"
  "objects hi_store r = []"
  "fresh hi_store = 2"
  by (simp_all add: hi_store_def)

lemma spread_Nil [simp]: "spread a [] = a"
  by (simp add: spread_def)

section \<open>One pass of the loop, case by case\<close>

lemma checkOutput_checked:
  "output_checked a c \<Longrightarrow> snd (checkOutput h a c sw) = None"
  by (auto simp: checkOutput_def output_checked_def split: option.splits if_splits sum.splits)

lemma run_loop_step:
  "enat (turns s) < max_turns \<Longrightarrow>
   run_loop h p max_turns execute_tools model_override s =
     (case run_body h p execute_tools model_override s of
        Abort e s' \<Rightarrow> Some (Some e, s')
      | Break s' \<Rightarrow> Some (None, s')
      | Continue s' \<Rightarrow> run_loop h p max_turns execute_tools model_override s')"
  by (subst run_loop.simps) simp


text \<open>The swarm once the request to the provider is recorded and counted.\<close>

lemma run_body_rejected:
  assumes "validateMessages h (currentAgent s) (arrays (heap s) (currentMessages s)) (this s) =
           (sw1, Some e)"
  shows "run_body h p execute_tools model_override s = Abort e (s\<lparr>this := sw1\<rparr>)"
  using assms by (simp add: run_body_def)

lemma run_body_answer:
  assumes v: "validateMessages h (currentAgent s) (arrays (heap s) (currentMessages s)) (this s) =
              (sw1, None)"
    and g: "getChatCompletion p (currentAgent s) (arrays (heap s) (currentMessages s))
              (objects (heap s) (currentContextVars s)) model_override = Inr rm"
    and c: "checkOutput h (currentAgent s) (rm_content rm)
              ((record_event h model_call
                  (model_call_data model_override (currentAgent s)
                     (arrays (heap s) (currentMessages s))) sw1)
               \<lparr>backend_calls := Suc (backend_calls sw1)\<rparr>) = (sw3, None)"
    and t: "rm_tool_calls rm = None \<or> rm_tool_calls rm = Some [] \<or> \<not> execute_tools"
  shows "run_body h p execute_tools model_override s =
         Break (s\<lparr>this := sw3,
                  heap := push (currentMessages s) (assistant_message rm) (heap s)\<rparr>)"
  using assms by (auto simp: run_body_def Let_def split: option.splits)

lemma run_body_tools:
  assumes v: "validateMessages h (currentAgent s) (arrays (heap s) (currentMessages s)) (this s) =
              (sw1, None)"
    and g: "getChatCompletion p (currentAgent s) (arrays (heap s) (currentMessages s))
              (objects (heap s) (currentContextVars s)) model_override = Inr rm"
    and c: "checkOutput h (currentAgent s) (rm_content rm)
              ((record_event h model_call
                  (model_call_data model_override (currentAgent s)
                     (arrays (heap s) (currentMessages s))) sw1)
               \<lparr>backend_calls := Suc (backend_calls sw1)\<rparr>) = (sw3, None)"
    and t: "rm_tool_calls rm = Some toolCalls" "toolCalls \<noteq> []"
    and d: "handleToolCalls h toolCalls (agent_functions (currentAgent s))
              (objects (heap s) (currentContextVars s)) sw3 = (sw4, Inr tr)"
  shows "\<exists>s'. run_body h p True model_override s =
                (if tr_agent tr = None then Break s' else Continue s') \<and>
              this s' =
                (case tr_agent tr of
                   None \<Rightarrow> sw4
                 | Some b \<Rightarrow>
                     record_event h handoff
                       (JObj [(js ''from'', JStr (agent_name (currentAgent s))),
                              (js ''to'', JStr (agent_name b)),
                              (js ''context_update'', JObj (tr_context_variables tr))]) sw4) \<and>
              currentAgent s' = (case tr_agent tr of None \<Rightarrow> currentAgent s | Some b \<Rightarrow> b) \<and>
              turns s' = Suc (turns s) \<and>
              arrays (heap s') (currentMessages s') =
                arrays (heap s) (currentMessages s) @ assistant_message rm # tr_messages tr \<and>
              objects (heap s') (currentContextVars s') =
                spread (spread [] (objects (heap s) (currentContextVars s)))
                  (tr_context_variables tr)"
  using assms
  by (cases "tr_agent tr") (simp_all add: run_body_def Let_def split_beta)

lemma run_body_tools_abort:
  assumes v: "validateMessages h (currentAgent s) (arrays (heap s) (currentMessages s)) (this s) =
              (sw1, None)"
    and g: "getChatCompletion p (currentAgent s) (arrays (heap s) (currentMessages s))
              (objects (heap s) (currentContextVars s)) model_override = Inr rm"
    and c: "checkOutput h (currentAgent s) (rm_content rm)
              ((record_event h model_call
                  (model_call_data model_override (currentAgent s)
                     (arrays (heap s) (currentMessages s))) sw1)
               \<lparr>backend_calls := Suc (backend_calls sw1)\<rparr>) = (sw3, None)"
    and t: "rm_tool_calls rm = Some toolCalls" "toolCalls \<noteq> []"
    and d: "handleToolCalls h toolCalls (agent_functions (currentAgent s))
              (objects (heap s) (currentContextVars s)) sw3 = (sw4, Inl e)"
  shows "\<exists>s'. run_body h p True model_override s = Abort e s' \<and> this s' = sw4"
  using assms by (simp add: run_body_def Let_def split_beta)

text \<open>What \<open>run\<close> makes of the end of its loop.\<close>

lemma run_returns:
  assumes "run_loop h p max_turns execute_tools model_override
             (run_init h sw st a messages context_variables) = Some (None, s)"
  shows "run h p sw st a messages context_variables max_turns execute_tools model_override =
         Some (record_event h agent_end (JObj [(js ''agent'', JStr (agent_name (currentAgent s)))])
                 (this s),
               heap s,
               Inr \<lparr>res_messages = currentMessages s, res_agent = currentAgent s,
                    res_context_variables = currentContextVars s,
                    res_trace =
                      getEvents (tracer (record_event h agent_end
                        (JObj [(js ''agent'', JStr (agent_name (currentAgent s)))]) (this s)))\<rparr>)"
  using assms by (simp add: run_def run_finish_def Let_def)

lemma run_throws:
  assumes "run_loop h p max_turns execute_tools model_override
             (run_init h sw st a messages context_variables) = Some (Some e, s)"
  shows "run h p sw st a messages context_variables max_turns execute_tools model_override =
         Some (this s, heap s, Inl e)"
  using assms by (simp add: run_def run_finish_def)

section \<open>What a dispatch leaves alone\<close>

lemma events_of_update [simp]:
  "events_of ty (sw\<lparr>invoked := i\<rparr>) = events_of ty sw"
  "events_of ty (sw\<lparr>backend_calls := n\<rparr>) = events_of ty sw"
  by (simp_all add: events_of_def)

lemma try_call_frame:
  "try_call h func cv tc sw resp = (sw', r) \<Longrightarrow>
     backend_calls sw' = backend_calls sw \<and> enabled (tracer sw') = enabled (tracer sw) \<and>
     events_of model_call sw' = events_of model_call sw"
  by (auto simp: try_call_def Let_def events_of_record_event
      split: sum.splits outcome.splits)

lemma handleToolCall_frame:
  "handleToolCall h fmap cv tc sw resp = (sw', r) \<Longrightarrow>
     backend_calls sw' = backend_calls sw \<and> enabled (tracer sw') = enabled (tracer sw) \<and>
     events_of model_call sw' = events_of model_call sw"
proof (cases "tc_type tc = js ''function''")
  case False
  then show "handleToolCall h fmap cv tc sw resp = (sw', r) \<Longrightarrow> ?thesis"
    by (simp add: handleToolCall_def)
next
  case True
  assume a: "handleToolCall h fmap cv tc sw resp = (sw', r)"
  define sw0 where "sw0 = record_event h function_call
                     (JObj [(js ''name'', JStr (tc_name tc)),
                            (js ''arguments'', JStr (tc_arguments tc))]) sw"
  have f0: "backend_calls sw0 = backend_calls sw" "enabled (tracer sw0) = enabled (tracer sw)"
    "events_of model_call sw0 = events_of model_call sw"
    by (simp_all add: sw0_def events_of_record_event)
  show ?thesis
  proof (cases "fmap (tc_name tc)")
    case None
    then show ?thesis using a True f0
      by (auto simp: handleToolCall_def Let_def sw0_def [symmetric] events_of_record_event)
  next
    case (Some func)
    obtain sw1 r1 where t: "try_call h func cv tc sw0 resp = (sw1, r1)"
      by (cases "try_call h func cv tc sw0 resp")
    note f1 = try_call_frame [OF t]
    show ?thesis using a True Some t f0 f1
      by (auto simp: handleToolCall_def Let_def sw0_def [symmetric] events_of_record_event
          split: sum.splits thrown.splits)
  qed
qed

lemma forToolCalls_frame:
  "forToolCalls h fmap cv tcs sw resp = (sw', r) \<Longrightarrow>
     backend_calls sw' = backend_calls sw \<and> enabled (tracer sw') = enabled (tracer sw) \<and>
     events_of model_call sw' = events_of model_call sw"
proof (induction tcs arbitrary: sw resp)
  case Nil
  then show ?case by simp
next
  case (Cons tc tcs)
  obtain sw1 r1 where t: "handleToolCall h fmap cv tc sw resp = (sw1, r1)"
    by (cases "handleToolCall h fmap cv tc sw resp")
  note f = handleToolCall_frame [OF t]
  show ?case
  proof (cases r1)
    case (Inl e)
    then show ?thesis using Cons.prems t f by simp
  next
    case (Inr resp')
    then show ?thesis using Cons.prems t f Cons.IH [of sw1 resp'] by simp
  qed
qed

lemma handleToolCalls_frame:
  "handleToolCalls h tcs fs cv sw = (sw', r) \<Longrightarrow>
     backend_calls sw' = backend_calls sw \<and> enabled (tracer sw') = enabled (tracer sw) \<and>
     events_of model_call sw' = events_of model_call sw"
  unfolding handleToolCalls_def by (rule forToolCalls_frame)

section \<open>Requests to the provider, pass by pass\<close>

text \<open>
  A pass whose input is valid sends one request to the provider and records one
  \<open>model_call\<close> event (when tracing is enabled); a pass whose input is not valid does
  neither.
\<close>

lemma run_body_counts:
  fixes h p execute_tools model_override s
  defines "s' \<equiv> state_of (run_body h p execute_tools model_override s)"
    and "passed \<equiv> snd (validateMessages h (currentAgent s) (arrays (heap s) (currentMessages s))
                          (this s)) = None"
  shows "backend_calls (this s') = backend_calls (this s) + (if passed then 1 else 0)"
    and "length (events_of model_call (this s')) =
         length (events_of model_call (this s)) +
         (if passed \<and> enabled (tracer (this s)) then 1 else 0)"
    and "enabled (tracer (this s')) = enabled (tracer (this s))"
proof -
  obtain sw1 r1 where v: "validateMessages h (currentAgent s) (arrays (heap s) (currentMessages s))
                            (this s) = (sw1, r1)"
    by (cases "validateMessages h (currentAgent s) (arrays (heap s) (currentMessages s)) (this s)")
  note f1 = validateMessages_frame [OF v]
  define sw2 where
    "sw2 = (record_event h model_call
              (model_call_data model_override (currentAgent s)
                 (arrays (heap s) (currentMessages s))) sw1)
           \<lparr>backend_calls := Suc (backend_calls sw1)\<rparr>"
  have f2: "backend_calls sw2 = Suc (backend_calls (this s))"
    "enabled (tracer sw2) = enabled (tracer (this s))"
    "length (events_of model_call sw2) =
       length (events_of model_call (this s)) + (if enabled (tracer (this s)) then 1 else 0)"
    using f1 by (simp_all add: sw2_def events_of_record_event)
  have "backend_calls (this s') = backend_calls (this s) + (if passed then 1 else 0) \<and>
        length (events_of model_call (this s')) =
          length (events_of model_call (this s)) +
          (if passed \<and> enabled (tracer (this s)) then 1 else 0) \<and>
        enabled (tracer (this s')) = enabled (tracer (this s))"
  proof (cases r1)
    case (Some e)
    then show ?thesis using v f1
      by (simp add: s'_def passed_def run_body_def state_of_def)
  next
    case None
    show ?thesis
    proof (cases "getChatCompletion p (currentAgent s) (arrays (heap s) (currentMessages s))
                    (objects (heap s) (currentContextVars s)) model_override")
      case (Inl e)
      then show ?thesis using v None f2
        by (simp add: s'_def passed_def run_body_def state_of_def Let_def sw2_def [symmetric])
    next
      case (Inr rm)
      obtain sw3 r3 where c: "checkOutput h (currentAgent s) (rm_content rm) sw2 = (sw3, r3)"
        by (cases "checkOutput h (currentAgent s) (rm_content rm) sw2")
      note f3 = checkOutput_frame [OF c]
      show ?thesis
      proof (cases r3)
        case (Some e)
        then show ?thesis using v None Inr c f2 f3
          by (simp add: s'_def passed_def run_body_def state_of_def Let_def sw2_def [symmetric])
      next
        case r3: None
        show ?thesis
        proof (cases "\<exists>tcs. rm_tool_calls rm = Some tcs \<and> tcs \<noteq> [] \<and> execute_tools")
          case False
          then show ?thesis using v None Inr c r3 f2 f3
            by (auto simp: s'_def passed_def run_body_def state_of_def Let_def sw2_def [symmetric]
                split: option.splits)
        next
          case True
          then obtain tcs where tcs: "rm_tool_calls rm = Some tcs" "tcs \<noteq> []" "execute_tools"
            by auto
          obtain sw4 r4 where
            d: "handleToolCalls h tcs (agent_functions (currentAgent s))
                  (objects (heap s) (currentContextVars s)) sw3 = (sw4, r4)"
            by (cases "handleToolCalls h tcs (agent_functions (currentAgent s))
                         (objects (heap s) (currentContextVars s)) sw3")
          note f4 = handleToolCalls_frame [OF d]
          show ?thesis using v None Inr c r3 tcs d f2 f3 f4
            by (cases r4)
               (auto simp: s'_def passed_def run_body_def state_of_def Let_def sw2_def [symmetric]
                  split_beta events_of_record_event split: option.splits)
        qed
      qed
    qed
  qed
  then show "backend_calls (this s') = backend_calls (this s) + (if passed then 1 else 0)"
    and "length (events_of model_call (this s')) =
         length (events_of model_call (this s)) +
         (if passed \<and> enabled (tracer (this s)) then 1 else 0)"
    and "enabled (tracer (this s')) = enabled (tracer (this s))"
    by simp_all
qed



section \<open>A run with a plain answer\<close>

lemma run_plain_answer:
  assumes ok: "accepts a (arrays st messages)"
    and answer: "createChatCompletion p
                   (createParams a (arrays st messages) (spread [] (objects st context_variables))
                      model_override False) =
                 Inr \<lparr>rm_content = Some text, rm_tool_calls = None\<rparr>"
    and out: "validateOutput a text = Inr v"
    and turns: "0 < max_turns"
  shows "\<exists>sw' st' r.
           run h p sw st a messages context_variables max_turns execute_tools model_override =
             Some (sw', st', Inr r) \<and>
           arrays st' (res_messages r) = arrays st messages @ [assistant_says text] \<and>
           res_agent r = a \<and>
           backend_calls sw' = Suc (backend_calls sw) \<and>
           hd (req_messages (createParams a (arrays st messages)
                 (spread [] (objects st context_variables)) model_override False)) =
             system_says (getInstructions a (spread [] (objects st context_variables)))"
proof -
  define s0 where "s0 = run_init h sw st a messages context_variables"
  obtain sw1 where v: "validateMessages h a (arrays st messages) (this s0) = (sw1, None)"
    using validateMessages_accepts [OF ok, of h "this s0"]
    by (cases "validateMessages h a (arrays st messages) (this s0)") auto
  have b1: "backend_calls sw1 = backend_calls sw"
    using validateMessages_frame [OF v] by (simp add: s0_def)
  define sw2 where
    "sw2 = (record_event h model_call (model_call_data model_override a (arrays st messages)) sw1)
             \<lparr>backend_calls := Suc (backend_calls sw1)\<rparr>"
  obtain sw3 where c: "checkOutput h a (Some text) sw2 = (sw3, None)"
    using checkOutput_ok [OF out, of h sw2] by (cases "checkOutput h a (Some text) sw2") auto
  have b3: "backend_calls sw3 = Suc (backend_calls sw)"
    using checkOutput_frame [OF c] b1 by (simp add: sw2_def)
  have body: "run_body h p execute_tools model_override s0 =
          Break (s0\<lparr>this := sw3, heap := push (fresh st) (assistant_says text) (heap s0)\<rparr>)"
    using v c answer
    by (simp add: run_body_def s0_def getChatCompletion_def sw2_def assistant_says_def
        assistant_message_def Let_def)
  have loop: "run_loop h p max_turns execute_tools model_override s0 =
          Some (None, s0\<lparr>this := sw3, heap := push (fresh st) (assistant_says text) (heap s0)\<rparr>)"
    using turns body by (subst run_loop.simps) (simp add: s0_def zero_enat_def [symmetric])
  show ?thesis
    using loop b3
    by (simp add: run_def s0_def [symmetric] run_finish_def Let_def)
       (simp add: s0_def createParams_def system_says_def Let_def)
qed

section \<open>One requested call, case by case\<close>

lemma sequence_Inl:
  "sequence rs = Inl e \<Longrightarrow> Inl e \<in> set rs"
  by (induction rs rule: sequence.induct) (auto split: sum.splits)

lemma handleToolCall_skipped:
  "tc_type tc \<noteq> js ''function'' \<Longrightarrow> handleToolCall h fmap cv tc sw resp = (sw, Inr resp)"
  by (simp add: handleToolCall_def)

lemma handleToolCall_not_found:
  assumes "tc_type tc = js ''function''" and "fmap (tc_name tc) = None"
  shows "snd (handleToolCall h fmap cv tc sw resp) =
         Inr (resp\<lparr>tr_messages := tr_messages resp @
                [tool_message (msg_function @ tc_name tc @ msg_not_found) (tc_name tc) (tc_id tc)]\<rparr>)"
    and "invoked (fst (handleToolCall h fmap cv tc sw resp)) = invoked sw"
  using assms by (simp_all add: handleToolCall_def Let_def)

text \<open>
  A callable returns a value that is no \<open>Result\<close> and no \<open>Agent\<close> and whose string
  coercion throws: what the coercion throws reaches the \<open>catch\<close> block of the call.
\<close>

lemma handleToolCall_unprintable:
  assumes "tc_type tc = js ''function''" and "fmap (tc_name tc) = Some func"
    and "parseArguments h (tc_arguments tc) = Inr parsedArgs"
    and "func cv parsedArgs = Returns (Plain v)"
    and "String_js v = Inl e"
    and "(case e of ErrorObj _ m \<Rightarrow> Inr m | ThrownValue w \<Rightarrow> String_js w) = Inr errorMessage"
  shows "handleToolCall h fmap cv tc sw resp =
         (record_event h function_return
            (JObj [(js ''name'', JStr (tc_name tc)), (js ''error'', JStr errorMessage)])
            ((record_event h function_call
                (JObj [(js ''name'', JStr (tc_name tc)),
                       (js ''arguments'', JStr (tc_arguments tc))]) sw)
             \<lparr>invoked := invoked sw @ [tc_name tc]\<rparr>),
          Inr (resp\<lparr>tr_messages := tr_messages resp @
                 [tool_message (msg_function @ tc_name tc @ msg_execution_error @ errorMessage)
                    (tc_name tc) (tc_id tc)]\<rparr>))"
  using assms
  by (simp add: handleToolCall_def try_call_def serializeResult_def Let_def)

lemma handleToolCall_throws_error:
  assumes "tc_type tc = js ''function''" and "fmap (tc_name tc) = Some func"
    and "parseArguments h (tc_arguments tc) = Inr parsedArgs"
    and "func cv parsedArgs = Throws (ErrorObj n m)"
  shows "snd (handleToolCall h fmap cv tc sw resp) =
         Inr (resp\<lparr>tr_messages := tr_messages resp @
                [tool_message (msg_function @ tc_name tc @ msg_execution_error @ m)
                   (tc_name tc) (tc_id tc)]\<rparr>)"
  using assms by (simp add: handleToolCall_def try_call_def Let_def)

lemma handleToolCall_throws_value:
  assumes "tc_type tc = js ''function''" and "fmap (tc_name tc) = Some func"
    and "parseArguments h (tc_arguments tc) = Inr parsedArgs"
    and "func cv parsedArgs = Throws (ThrownValue v)"
  shows "snd (handleToolCall h fmap cv tc sw resp) =
         (case String_js v of
            Inl e \<Rightarrow> Inl e
          | Inr m \<Rightarrow>
              Inr (resp\<lparr>tr_messages := tr_messages resp @
                     [tool_message (msg_function @ tc_name tc @ msg_execution_error @ m)
                        (tc_name tc) (tc_id tc)]\<rparr>))"
  using assms by (simp add: handleToolCall_def try_call_def Let_def split: sum.splits)

lemma forToolCalls_last:
  "snd (forToolCalls h fmap cv [tc] sw resp) = snd (handleToolCall h fmap cv tc sw resp)"
  by (simp split: prod.splits sum.splits)

lemma handleToolCalls_single:
  "snd (handleToolCalls h [tc] fs cv sw) =
   snd (handleToolCall h (functionMap h fs) cv tc sw
          \<lparr>tr_messages = [], tr_agent = None, tr_context_variables = []\<rparr>)"
  by (simp add: handleToolCalls_def split: prod.splits sum.splits)

text \<open>The dispatch table: the last callable of the list with the name, or else the
  inherited member.\<close>

lemma functionMap_None:
  "functionMap h fs n = None \<longleftrightarrow>
     objectPrototype h n = None \<and>
     (\<forall>f \<in> set fs. case f of Callable m _ _ _ \<Rightarrow> m \<noteq> n | Descriptor _ \<Rightarrow> True)"
proof -
  have "fold (\<lambda>func m. case func of Callable n _ _ f \<Rightarrow> m(n \<mapsto> f) | Descriptor _ \<Rightarrow> m) fs m0 n = None
        \<longleftrightarrow> m0 n = None \<and> (\<forall>f \<in> set fs. case f of Callable m _ _ _ \<Rightarrow> m \<noteq> n | Descriptor _ \<Rightarrow> True)"
    for m0
    by (induction fs arbitrary: m0) (auto split: action.splits)
  then show ?thesis by (simp add: functionMap_def)
qed

lemma functionMap_listed:
  "functionMap h fs n = (case listed fs n of Some f \<Rightarrow> Some f | None \<Rightarrow> objectPrototype h n)"
proof -
  have "fold (\<lambda>func m. case func of Callable n _ _ f \<Rightarrow> m(n \<mapsto> f) | Descriptor _ \<Rightarrow> m) fs m0 n =
        (case listed fs n of Some f \<Rightarrow> Some f | None \<Rightarrow> m0 n)" for m0
    by (induction fs arbitrary: m0) (simp_all split: option.splits action.splits)
  then show ?thesis by (simp add: functionMap_def)
qed

lemma functionMap_Some:
  "listed fs n = Some f \<Longrightarrow> functionMap h fs n = Some f"
  by (simp add: functionMap_listed)

section \<open>A run with one round of tool calls\<close>

lemma run_one_round:
  assumes ok: "accepts a (arrays st messages)"
    and answer: "createChatCompletion p
                   (createParams a (arrays st messages) (spread [] (objects st context_variables))
                      model_override False) = Inr rm"
    and out: "output_checked a (rm_content rm)"
    and calls: "rm_tool_calls rm = Some toolCalls" "toolCalls \<noteq> []"
    and dispatch: "\<And>sw3. snd (handleToolCalls h toolCalls (agent_functions a)
                            (spread [] (objects st context_variables)) sw3) = Inr tr"
    and stay: "tr_agent tr = None"
    and turns: "0 < max_turns"
  shows "\<exists>sw' st' r.
           run h p sw st a messages context_variables max_turns True model_override =
             Some (sw', st', Inr r) \<and>
           arrays st' (res_messages r) =
             arrays st messages @ assistant_message rm # tr_messages tr \<and>
           objects st' (res_context_variables r) =
             spread (spread [] (spread [] (objects st context_variables)))
               (tr_context_variables tr) \<and>
           res_agent r = a \<and>
           backend_calls sw' = Suc (backend_calls sw)"
proof -
  define s0 where "s0 = run_init h sw st a messages context_variables"
  have s0: "currentAgent s0 = a" "turns s0 = 0"
    "arrays (heap s0) (currentMessages s0) = arrays st messages"
    "objects (heap s0) (currentContextVars s0) = spread [] (objects st context_variables)"
    "backend_calls (this s0) = backend_calls sw"
    by (simp_all add: s0_def)
  obtain sw1 where v: "validateMessages h a (arrays st messages) (this s0) = (sw1, None)"
    using validateMessages_accepts [OF ok, of h "this s0"]
    by (cases "validateMessages h a (arrays st messages) (this s0)") auto
  define sw2 where
    "sw2 = (record_event h model_call (model_call_data model_override a (arrays st messages)) sw1)
             \<lparr>backend_calls := Suc (backend_calls sw1)\<rparr>"
  obtain sw3 where c: "checkOutput h a (rm_content rm) sw2 = (sw3, None)"
    using checkOutput_checked [OF out, of h sw2] by (cases "checkOutput h a (rm_content rm) sw2") auto
  obtain sw4 where d: "handleToolCalls h toolCalls (agent_functions a)
                         (spread [] (objects st context_variables)) sw3 = (sw4, Inr tr)"
    using dispatch [of sw3]
    by (cases "handleToolCalls h toolCalls (agent_functions a)
                 (spread [] (objects st context_variables)) sw3") auto
  have g: "getChatCompletion p a (arrays st messages) (spread [] (objects st context_variables))
             model_override = Inr rm"
    using answer by (simp add: getChatCompletion_def)
  from run_body_tools [of h s0 sw1 p model_override rm sw3 toolCalls sw4 tr, unfolded s0,
      OF v g c [unfolded sw2_def] calls d]
  obtain s1 where s1: "run_body h p True model_override s0 = Break s1"
    "this s1 = sw4" "currentAgent s1 = a"
    "arrays (heap s1) (currentMessages s1) =
       arrays st messages @ assistant_message rm # tr_messages tr"
    "objects (heap s1) (currentContextVars s1) =
       spread (spread [] (spread [] (objects st context_variables))) (tr_context_variables tr)"
    using stay by auto
  have n: "backend_calls (this s1) = Suc (backend_calls sw)"
    using run_body_counts(1) [of h p True model_override s0] s1(1) s0 v
    by (simp add: state_of_def)
  have "run_loop h p max_turns True model_override s0 = Some (None, s1)"
    using turns s1(1) by (subst run_loop_step) (simp_all add: s0 zero_enat_def [symmetric])
  from run_returns [OF this [unfolded s0_def]] s1 n show ?thesis
    by simp
qed

lemma run_one_round_throws:
  assumes ok: "accepts a (arrays st messages)"
    and answer: "createChatCompletion p
                   (createParams a (arrays st messages) (spread [] (objects st context_variables))
                      model_override False) = Inr rm"
    and out: "output_checked a (rm_content rm)"
    and calls: "rm_tool_calls rm = Some toolCalls" "toolCalls \<noteq> []"
    and dispatch: "\<And>sw3. snd (handleToolCalls h toolCalls (agent_functions a)
                            (spread [] (objects st context_variables)) sw3) = Inl e"
    and turns: "0 < max_turns"
  shows "\<exists>sw' st'.
           run h p sw st a messages context_variables max_turns True model_override =
             Some (sw', st', Inl e)"
proof -
  define s0 where "s0 = run_init h sw st a messages context_variables"
  have s0: "currentAgent s0 = a" "turns s0 = 0"
    "arrays (heap s0) (currentMessages s0) = arrays st messages"
    "objects (heap s0) (currentContextVars s0) = spread [] (objects st context_variables)"
    by (simp_all add: s0_def)
  obtain sw1 where v: "validateMessages h a (arrays st messages) (this s0) = (sw1, None)"
    using validateMessages_accepts [OF ok, of h "this s0"]
    by (cases "validateMessages h a (arrays st messages) (this s0)") auto
  define sw2 where
    "sw2 = (record_event h model_call (model_call_data model_override a (arrays st messages)) sw1)
             \<lparr>backend_calls := Suc (backend_calls sw1)\<rparr>"
  obtain sw3 where c: "checkOutput h a (rm_content rm) sw2 = (sw3, None)"
    using checkOutput_checked [OF out, of h sw2] by (cases "checkOutput h a (rm_content rm) sw2") auto
  obtain sw4 where d: "handleToolCalls h toolCalls (agent_functions a)
                         (spread [] (objects st context_variables)) sw3 = (sw4, Inl e)"
    using dispatch [of sw3]
    by (cases "handleToolCalls h toolCalls (agent_functions a)
                 (spread [] (objects st context_variables)) sw3") auto
  have g: "getChatCompletion p a (arrays st messages) (spread [] (objects st context_variables))
             model_override = Inr rm"
    using answer by (simp add: getChatCompletion_def)
  from run_body_tools_abort [of h s0 sw1 p model_override rm sw3 toolCalls sw4 e, unfolded s0,
      OF v g c [unfolded sw2_def] calls d]
  obtain s1 where s1: "run_body h p True model_override s0 = Abort e s1"
    by auto
  have "run_loop h p max_turns True model_override s0 = Some (Some e, s1)"
    using turns s1(1) by (subst run_loop_step) (simp_all add: s0 zero_enat_def [symmetric])
  from run_throws [OF this [unfolded s0_def]] show ?thesis
    by simp
qed

section \<open>Objects as maps\<close>

lemma map_of_rev_distinct:
  "distinct (map fst xs) \<Longrightarrow> map_of (rev xs) = map_of xs"
proof (induction xs)
  case Nil
  then show ?case by simp
next
  case (Cons x xs)
  then have "fst x \<notin> dom (map_of xs)"
    by (simp add: dom_map_of_conv_image_fst)
  then have "[fst x \<mapsto> snd x] ++ map_of xs = (map_of xs)(fst x \<mapsto> snd x)"
    by (auto simp: map_add_def fun_eq_iff split: option.splits)
  with Cons show ?case by (cases x) simp
qed

lemma props_simps [simp]:
  "props [] = Map.empty"
  "props [(k, v)] = [k \<mapsto> v]"
  by (simp_all add: props_def)

lemma props_update:
  "distinct (map fst a) \<Longrightarrow> props (AList.update k v a) = (props a)(k \<mapsto> v)"
  by (simp add: props_def map_of_rev_distinct distinct_update update_conv')

lemma props_Cons:
  "props ((k, v) # b) = [k \<mapsto> v] ++ props b"
  by (simp add: props_def)

lemma spread_distinct:
  "distinct (map fst a) \<Longrightarrow> distinct (map fst (spread a b))"
  unfolding spread_def by (induction b arbitrary: a) (auto simp: distinct_update)

lemma props_spread:
  "distinct (map fst a) \<Longrightarrow> props (spread a b) = props a ++ props b"
  unfolding spread_def
proof (induction b arbitrary: a)
  case Nil
  then show ?case by simp
next
  case (Cons x b)
  obtain k v where x: "x = (k, v)" by (cases x)
  have "props (fold (\<lambda>(k, v). AList.update k v) b (AList.update k v a)) =
        props (AList.update k v a) ++ props b"
    using Cons.prems by (intro Cons.IH) (simp add: distinct_update)
  also have "\<dots> = (props a)(k \<mapsto> v) ++ props b"
    using Cons.prems by (simp add: props_update)
  also have "\<dots> = props a ++ ([k \<mapsto> v] ++ props b)"
    by (auto simp: map_add_def fun_eq_iff split: option.splits)
  finally show ?case by (simp add: x props_Cons)
qed

lemma props_copy:
  "props (spread [] c) = props c" "distinct (map fst (spread [] c))"
  by (simp_all add: props_spread spread_distinct)

lemma merged_simps [simp]:
  "merged m [] = m"
  "merged m (d # ds) = merged (m ++ props d) ds"
  "merged m (ds @ [d]) = merged m ds ++ props d"
  by (simp_all add: merged_def)

lemma merged_add:
  "m ++ merged m' ds = merged (m ++ m') ds"
  by (induction ds arbitrary: m') simp_all

text \<open>The last delta that binds a key decides its value.\<close>

lemma merged_later_wins:
  assumes "i < length ds" and "props (ds ! i) k = Some v"
    and "\<forall>j. i < j \<and> j < length ds \<longrightarrow> props (ds ! j) k = None"
  shows "merged m ds k = Some v"
  using assms
proof (induction ds arbitrary: i rule: rev_induct)
  case Nil
  then show ?case by simp
next
  case (snoc d ds)
  show ?case
  proof (cases "i = length ds")
    case True
    then show ?thesis using snoc.prems by (simp add: map_add_def)
  next
    case False
    then have i: "i < length ds" using snoc.prems(1) by simp
    have last: "props d k = None"
      using snoc.prems(3) i by (auto dest: spec [where x = "length ds"])
    have "merged m ds k = Some v"
    proof (rule snoc.IH [OF i])
      show "props (ds ! i) k = Some v"
        using snoc.prems(2) i by (simp add: nth_append)
      show "\<forall>j. i < j \<and> j < length ds \<longrightarrow> props (ds ! j) k = None"
      proof (intro allI impI)
        fix j assume j: "i < j \<and> j < length ds"
        then have "props ((ds @ [d]) ! j) k = None"
          using snoc.prems(3) by simp
        then show "props (ds ! j) k = None"
          using j by (simp add: nth_append)
      qed
    qed
    then show ?thesis using last by (simp add: map_add_def)
  qed
qed

section \<open>The deltas of a round\<close>

lemma try_call_delta:
  assumes "try_call h func cv tc sw resp = (sw', Inr resp')"
    and "distinct (map fst (tr_context_variables resp))"
  shows "props (tr_context_variables resp') =
           props (tr_context_variables resp) ++
           props (case parseArguments h (tc_arguments tc) of
                    Inl _ \<Rightarrow> []
                  | Inr parsedArgs \<Rightarrow>
                      (case func cv parsedArgs of
                         Returns (ResultObj _ _ (Some d)) \<Rightarrow> d
                       | _ \<Rightarrow> []))"
    and "distinct (map fst (tr_context_variables resp'))"
  using assms
  by (auto simp: try_call_def Let_def handleFunctionResult_def serializeResult_def
      props_spread props_copy spread_distinct
      split: sum.splits outcome.splits returned.splits option.splits)

lemma try_call_caught:
  assumes "try_call h func cv tc sw resp = (sw', Inl e)"
  shows "(case parseArguments h (tc_arguments tc) of
            Inl _ \<Rightarrow> []
          | Inr parsedArgs \<Rightarrow>
              (case func cv parsedArgs of
                 Returns (ResultObj _ _ (Some d)) \<Rightarrow> d
               | _ \<Rightarrow> [])) = []"
  using assms
  by (auto simp: try_call_def Let_def handleFunctionResult_def serializeResult_def
      split: sum.splits outcome.splits returned.splits option.splits)

lemma handleToolCall_delta:
  assumes "handleToolCall h fmap cv tc sw resp = (sw', Inr resp')"
    and "distinct (map fst (tr_context_variables resp))"
  shows "props (tr_context_variables resp') =
           props (tr_context_variables resp) ++ props (call_delta h fmap cv tc) \<and>
         distinct (map fst (tr_context_variables resp'))"
proof (cases "tc_type tc = js ''function''")
  case False
  then show ?thesis using assms by (simp add: handleToolCall_def call_delta_def)
next
  case True
  show ?thesis
  proof (cases "fmap (tc_name tc)")
    case None
    then show ?thesis using assms True
      by (auto simp: handleToolCall_def call_delta_def Let_def)
  next
    case (Some func)
    define sw0 where "sw0 = record_event h function_call
                     (JObj [(js ''name'', JStr (tc_name tc)),
                            (js ''arguments'', JStr (tc_arguments tc))]) sw"
    obtain sw1 r1 where t: "try_call h func cv tc sw0 resp = (sw1, r1)"
      by (cases "try_call h func cv tc sw0 resp")
    show ?thesis
    proof (cases r1)
      case (Inr resp1)
      then have "resp' = resp1"
        using assms(1) True Some t by (simp add: handleToolCall_def Let_def sw0_def [symmetric])
      then show ?thesis
        using try_call_delta [OF t [unfolded Inr] assms(2)] True Some
        by (simp add: call_delta_def)
    next
      case (Inl e)
      then have "tr_context_variables resp' = tr_context_variables resp"
        using assms(1) True Some t
        by (auto simp: handleToolCall_def Let_def sw0_def [symmetric] split: sum.splits thrown.splits)
      then show ?thesis
        using try_call_caught [OF t [unfolded Inl]] True Some assms(2)
        by (simp add: call_delta_def)
    qed
  qed
qed

lemma forToolCalls_delta:
  assumes "forToolCalls h fmap cv tcs sw resp = (sw', Inr resp')"
    and "distinct (map fst (tr_context_variables resp))"
  shows "props (tr_context_variables resp') =
           merged (props (tr_context_variables resp)) (map (call_delta h fmap cv) tcs)"
  using assms
proof (induction tcs arbitrary: sw resp)
  case Nil
  then show ?case by simp
next
  case (Cons tc tcs)
  obtain sw1 r1 where t: "handleToolCall h fmap cv tc sw resp = (sw1, r1)"
    by (cases "handleToolCall h fmap cv tc sw resp")
  show ?case
  proof (cases r1)
    case (Inl e)
    then show ?thesis using Cons.prems(1) t by simp
  next
    case (Inr resp1)
    note d = handleToolCall_delta [OF t [unfolded Inr] Cons.prems(2)]
    have "forToolCalls h fmap cv tcs sw1 resp1 = (sw', Inr resp')"
      using Cons.prems(1) t Inr by simp
    from Cons.IH [OF this] d show ?thesis by simp
  qed
qed

lemma handleToolCalls_delta:
  assumes "handleToolCalls h tcs fs cv sw = (sw', Inr tr)"
  shows "props (tr_context_variables tr) =
           merged Map.empty (map (call_delta h (functionMap h fs) cv) tcs)"
  using forToolCalls_delta [OF assms [unfolded handleToolCalls_def]] by simp

section \<open>The turn counter\<close>

lemma checkOutput_thrown:
  "snd (checkOutput h a c sw) = snd (checkOutput h a c sw')"
  by (auto simp: checkOutput_def split: option.splits sum.splits)

lemma run_body_turns:
  "turns (state_of (run_body h p execute_tools model_override s)) =
   turns s + (if executes_tools h p execute_tools model_override s then 1 else 0)"
proof -
  obtain sw1 r1 where v: "validateMessages h (currentAgent s) (arrays (heap s) (currentMessages s))
                            (this s) = (sw1, r1)"
    by (cases "validateMessages h (currentAgent s) (arrays (heap s) (currentMessages s)) (this s)")
  define sw2 where
    "sw2 = (record_event h model_call
              (model_call_data model_override (currentAgent s)
                 (arrays (heap s) (currentMessages s))) sw1)
           \<lparr>backend_calls := Suc (backend_calls sw1)\<rparr>"
  show ?thesis
  proof (cases r1)
    case (Some e)
    then show ?thesis using v
      by (simp add: run_body_def state_of_def executes_tools_def)
  next
    case None
    show ?thesis
    proof (cases "getChatCompletion p (currentAgent s) (arrays (heap s) (currentMessages s))
                    (objects (heap s) (currentContextVars s)) model_override")
      case (Inl e)
      then show ?thesis using v None
        by (simp add: run_body_def state_of_def executes_tools_def Let_def)
    next
      case (Inr rm)
      obtain sw3 r3 where c: "checkOutput h (currentAgent s) (rm_content rm) sw2 = (sw3, r3)"
        by (cases "checkOutput h (currentAgent s) (rm_content rm) sw2")
      obtain sw3' where c': "checkOutput h (currentAgent s) (rm_content rm) sw1 = (sw3', r3)"
        using c checkOutput_thrown [of h "currentAgent s" "rm_content rm" sw1 sw2]
        by (cases "checkOutput h (currentAgent s) (rm_content rm) sw1") auto
      show ?thesis
      proof (cases r3)
        case (Some e)
        then show ?thesis using v None Inr c c'
          by (simp add: run_body_def state_of_def executes_tools_def Let_def sw2_def [symmetric])
      next
        case r3: None
        show ?thesis
        proof (cases "\<exists>tcs. rm_tool_calls rm = Some tcs \<and> tcs \<noteq> [] \<and> execute_tools")
          case False
          then show ?thesis using v None Inr c c' r3
            by (auto simp: run_body_def state_of_def executes_tools_def Let_def
                sw2_def [symmetric] split: option.splits)
        next
          case True
          then obtain tcs where tcs: "rm_tool_calls rm = Some tcs" "tcs \<noteq> []" "execute_tools"
            by auto
          obtain sw4 r4 where
            d: "handleToolCalls h tcs (agent_functions (currentAgent s))
                  (objects (heap s) (currentContextVars s)) sw3 = (sw4, r4)"
            by (cases "handleToolCalls h tcs (agent_functions (currentAgent s))
                         (objects (heap s) (currentContextVars s)) sw3")
          show ?thesis using v None Inr c c' r3 tcs d
            by (cases r4)
               (auto simp: run_body_def state_of_def executes_tools_def Let_def
                  sw2_def [symmetric] split_beta split: option.splits)
        qed
      qed
    qed
  qed
qed

lemma stream_try_turns:
  "turns (fst (stream_try h p a execute_tools model_override s)) = turns s"
  by (simp add: stream_try_def Let_def split_beta
      split: option.splits sum.splits prod.splits if_splits)

lemma stream_body_turns:
  "turns (state_of (stream_body h p a execute_tools model_override s)) =
   turns s +
   (if snd (validateMessages h (currentAgent s) (arrays (heap s) (currentMessages s)) (this s))
       = None
    then 1 else 0)"
proof -
  obtain sw1 r1 where v: "validateMessages h (currentAgent s) (arrays (heap s) (currentMessages s))
                            (this s) = (sw1, r1)"
    by (cases "validateMessages h (currentAgent s) (arrays (heap s) (currentMessages s)) (this s)")
  show ?thesis
  proof (cases r1)
    case (Some e)
    then show ?thesis using v by (simp add: stream_body_def state_of_def)
  next
    case None
    define s0 where
      "s0 = s\<lparr>this := sw1, turns := Suc (turns s),
              emitted := emitted s @ [stream_start (agent_name (currentAgent s))]\<rparr>"
    obtain s1 r where t: "stream_try h p a execute_tools model_override s0 = (s1, r)"
      by (cases "stream_try h p a execute_tools model_override s0")
    have "turns s1 = Suc (turns s)"
      using stream_try_turns [of h p a execute_tools model_override s0] t by (simp add: s0_def)
    then show ?thesis using v None t
      by (auto simp: stream_body_def state_of_def Let_def s0_def [symmetric]
          split: sum.splits bool.splits)
  qed
qed

section \<open>What a run does to the store\<close>

text \<open>
  A pass only writes to the array that the run works on and to what it allocates: with
  every reference below \<open>k\<close> allocated before the run and the working array at \<open>k\<close> or
  above, the store below \<open>k\<close> stays as it is, and the working array only grows at its
  end.
\<close>

lemma extends_refl: "works_above k s \<Longrightarrow> extends k s s"
  by (simp add: extends_def)

lemma extends_trans: "extends k s s1 \<Longrightarrow> extends k s1 s2 \<Longrightarrow> extends k s s2"
  by (auto simp: extends_def)

lemma extends_this [simp]: "extends k s (s'\<lparr>this := sw\<rparr>) = extends k s s'"
  by (simp add: extends_def works_above_def)

lemma run_body_extends:
  assumes "works_above k s"
  shows "extends k s (state_of (run_body h p execute_tools model_override s))"
proof -
  obtain sw1 r1 where v: "validateMessages h (currentAgent s) (arrays (heap s) (currentMessages s))
                            (this s) = (sw1, r1)"
    by (cases "validateMessages h (currentAgent s) (arrays (heap s) (currentMessages s)) (this s)")
  define sw2 where
    "sw2 = (record_event h model_call
              (model_call_data model_override (currentAgent s)
                 (arrays (heap s) (currentMessages s))) sw1)
           \<lparr>backend_calls := Suc (backend_calls sw1)\<rparr>"
  show ?thesis
  proof (cases r1)
    case (Some e)
    then show ?thesis using v assms
      by (simp add: run_body_def state_of_def extends_refl)
  next
    case None
    show ?thesis
    proof (cases "getChatCompletion p (currentAgent s) (arrays (heap s) (currentMessages s))
                    (objects (heap s) (currentContextVars s)) model_override")
      case (Inl e)
      then show ?thesis using v None assms
        by (simp add: run_body_def state_of_def Let_def extends_refl)
    next
      case (Inr rm)
      obtain sw3 r3 where c: "checkOutput h (currentAgent s) (rm_content rm) sw2 = (sw3, r3)"
        by (cases "checkOutput h (currentAgent s) (rm_content rm) sw2")
      show ?thesis
      proof (cases r3)
        case (Some e)
        then show ?thesis using v None Inr c assms
          by (simp add: run_body_def state_of_def Let_def sw2_def [symmetric] extends_refl)
      next
        case r3: None
        show ?thesis
        proof (cases "\<exists>tcs. rm_tool_calls rm = Some tcs \<and> tcs \<noteq> [] \<and> execute_tools")
          case False
          then show ?thesis using v None Inr c r3 assms
            by (auto simp: run_body_def state_of_def Let_def sw2_def [symmetric] extends_def
                works_above_def split: option.splits)
        next
          case True
          then obtain tcs where tcs: "rm_tool_calls rm = Some tcs" "tcs \<noteq> []" "execute_tools"
            by auto
          obtain sw4 r4 where
            d: "handleToolCalls h tcs (agent_functions (currentAgent s))
                  (objects (heap s) (currentContextVars s)) sw3 = (sw4, r4)"
            by (cases "handleToolCalls h tcs (agent_functions (currentAgent s))
                         (objects (heap s) (currentContextVars s)) sw3")
          show ?thesis using v None Inr c r3 tcs d assms
            by (cases r4)
               (auto simp: run_body_def state_of_def Let_def sw2_def [symmetric] split_beta
                  extends_def works_above_def split: option.splits)
        qed
      qed
    qed
  qed
qed

lemma run_loop_extends:
  assumes "run_loop h p max_turns execute_tools model_override s = Some (e, s')"
    and "works_above k s"
  shows "extends k s s'"
proof -
  have "\<forall>k. works_above k s \<longrightarrow> extends k s (snd (e, s'))"
  proof (rule run_loop.raw_induct
      [where P = "\<lambda>h p max_turns execute_tools model_override s r.
                    \<forall>k. works_above k s \<longrightarrow> extends k s (snd r)", OF _ assms(1)])
    fix loop :: "host \<Rightarrow> modelProvider \<Rightarrow> enat \<Rightarrow> bool \<Rightarrow> jsstring option \<Rightarrow> run_state \<Rightarrow>
                 (thrown option \<times> run_state) option"
      and h :: host and p :: modelProvider and max_turns :: enat and execute_tools :: bool
      and model_override :: "jsstring option" and s :: run_state
      and r :: "thrown option \<times> run_state"
    assume IH: "\<And>h p max_turns execute_tools model_override s r.
        loop h p max_turns execute_tools model_override s = Some r \<Longrightarrow>
        \<forall>k. works_above k s \<longrightarrow> extends k s (snd r)"
    assume eq: "(if enat (turns s) < max_turns
         then case run_body h p execute_tools model_override s of
                Abort e s' \<Rightarrow> Some (Some e, s')
              | Break s' \<Rightarrow> Some (None, s')
              | Continue s' \<Rightarrow> loop h p max_turns execute_tools model_override s'
         else Some (None, s)) = Some r"
    show "\<forall>k. works_above k s \<longrightarrow> extends k s (snd r)"
    proof (intro allI impI)
      fix k assume k: "works_above k s"
      note step = run_body_extends [OF k, of h p execute_tools model_override]
      show "extends k s (snd r)"
      proof (cases "enat (turns s) < max_turns")
        case False
        then show ?thesis using eq k by (auto simp: extends_refl)
      next
        case True
        show ?thesis
        proof (cases "run_body h p execute_tools model_override s")
          case (Abort e s1)
          then show ?thesis using eq True step by (auto simp: state_of_def)
        next
          case (Break s1)
          then show ?thesis using eq True step by (auto simp: state_of_def)
        next
          case (Continue s1)
          then have "loop h p max_turns execute_tools model_override s1 = Some r"
            using eq True by simp
          from IH [OF this] step Continue have "extends k s1 (snd r)"
            by (auto simp: state_of_def extends_def)
          with step Continue show ?thesis
            by (auto simp: state_of_def intro: extends_trans)
        qed
      qed
    qed
  qed
  with assms(2) show ?thesis by simp
qed

section \<open>JSON text read back\<close>

subsection \<open>White space\<close>

lemma skip_ws_blank:
  "set w \<subseteq> {0x20, 0x0A} \<Longrightarrow> skip_ws (w @ s) = skip_ws s"
  by (induction w) (auto simp: skip_ws_def is_ws_def)

lemma skip_ws_stop:
  "\<not> is_ws c \<Longrightarrow> skip_ws (c # s) = c # s"
  by (simp add: skip_ws_def)

lemma parse_value_blank:
  "set w \<subseteq> {0x20, 0x0A} \<Longrightarrow> parse_value canonical n (w @ s) = parse_value canonical n s"
  by (cases n) (simp_all add: skip_ws_blank)

subsection \<open>Numbers\<close>

lemma digit_char_props:
  "d < 10 \<Longrightarrow> is_digit (digit_char d)"
  "d < 10 \<Longrightarrow> unat (digit_char d) - 48 = d"
  "d < 10 \<Longrightarrow> digit_char d = 0x30 \<longleftrightarrow> d = 0"
proof -
  assume d: "d < 10"
  then have u: "unat (digit_char d) = 48 + d"
    unfolding digit_char_def by (subst unsigned_of_nat, subst take_bit_nat_eq_self) simp_all
  show "is_digit (digit_char d)"
    using d u by (simp add: is_digit_def word_le_nat_alt)
  show "unat (digit_char d) - 48 = d"
    using u by simp
  show "digit_char d = 0x30 \<longleftrightarrow> d = 0"
    using u by (auto simp: word_unat_eq_iff)
qed

lemma parse_digits_append:
  "\<forall>c \<in> set ds. is_digit c \<Longrightarrow> (rest = [] \<or> \<not> is_digit (hd rest)) \<Longrightarrow>
   parse_digits acc (ds @ rest) = (fold (\<lambda>c a. a * 10 + (unat c - 48)) ds acc, rest)"
proof (induction ds arbitrary: acc)
  case Nil
  then show ?case by (cases rest) auto
next
  case (Cons d ds)
  then show ?case by simp
qed

lemma nat_to_string_digits:
  "\<forall>c \<in> set (nat_to_string n). is_digit c"
proof (induction n rule: nat_to_string.induct)
  case (1 n)
  then show ?case
    by (subst nat_to_string.simps) (auto simp: digit_char_props)
qed

lemma fold_digits:
  "fold (\<lambda>c a. a * 10 + (unat c - 48)) (nat_to_string n) 0 = n"
proof (induction n rule: nat_to_string.induct)
  case (1 n)
  show ?case
  proof (cases "n < 10")
    case True
    then show ?thesis by (subst nat_to_string.simps) (simp add: digit_char_props)
  next
    case False
    then have "fold (\<lambda>c a. a * 10 + (unat c - 48)) (nat_to_string n) 0 =
               (n div 10) * 10 + n mod 10"
      using "1.IH" by (subst nat_to_string.simps) (simp add: digit_char_props)
    then show ?thesis by simp
  qed
qed

lemma nat_to_string_nonempty: "nat_to_string n \<noteq> []"
  by (subst nat_to_string.simps) simp

lemma nat_to_string_head:
  "hd (nat_to_string n) = 0x30 \<longleftrightarrow> n = 0"
proof (induction n rule: nat_to_string.induct)
  case (1 n)
  show ?case
  proof (cases "n < 10")
    case True
    then show ?thesis by (subst nat_to_string.simps) (simp add: digit_char_props)
  next
    case False
    then have "hd (nat_to_string n) = hd (nat_to_string (n div 10))"
      by (subst nat_to_string.simps) (simp add: nat_to_string_nonempty)
    moreover have "n div 10 \<noteq> 0" using False by simp
    ultimately show ?thesis using "1.IH" False by simp
  qed
qed

lemma nat_to_string_zero: "nat_to_string 0 = [0x30]"
  by (subst nat_to_string.simps) (simp add: digit_char_def)

lemma parse_nat_nat_to_string:
  assumes "rest = [] \<or> \<not> is_digit (hd rest)"
  shows "parse_nat (nat_to_string n @ rest) = Some (n, rest)"
proof (cases "n = 0")
  case True
  then show ?thesis by (simp add: nat_to_string_zero parse_nat_def)
next
  case False
  obtain c cs where s: "nat_to_string n = c # cs"
    using nat_to_string_nonempty [of n] by (cases "nat_to_string n") auto
  have c: "c \<noteq> 0x30" "is_digit c"
    using nat_to_string_head [of n] nat_to_string_digits [of n] False by (simp_all add: s)
  have "parse_digits 0 (nat_to_string n @ rest) = (n, rest)"
    using parse_digits_append [where ds = "nat_to_string n" and acc = 0 and rest = rest]
      nat_to_string_digits [of n] assms by (simp add: fold_digits)
  then show ?thesis using c by (simp add: parse_nat_def s)
qed

lemma number_to_string_head:
  "\<exists>c cs. number_to_string i = c # cs \<and> (c = 0x2D \<or> is_digit c)"
proof -
  obtain c cs where s: "nat_to_string (nat \<bar>i\<bar>) = c # cs"
    using nat_to_string_nonempty [of "nat \<bar>i\<bar>"] by (cases "nat_to_string (nat \<bar>i\<bar>)") auto
  have "is_digit c"
    using nat_to_string_digits [of "nat \<bar>i\<bar>"] by (simp add: s)
  then show ?thesis
    using s by (cases "i < 0") (simp_all add: number_to_string_def js_unfold)
qed

text \<open>The scanner of numerals stops at a comma, a line feed and a closing bracket.\<close>

lemma digits_append:
  assumes "rest = [] \<or> hd rest = 0x2C \<or> hd rest = 0x0A \<or> hd rest = 0x7D \<or> hd rest = 0x5D"
  shows "takeWhile is_digit (x @ rest) = takeWhile is_digit x"
    and "dropWhile is_digit (x @ rest) = dropWhile is_digit x @ rest"
proof -
  have r: "takeWhile is_digit rest = []" "dropWhile is_digit rest = rest"
    using assms by (cases rest; auto simp: is_digit_def)+
  show "takeWhile is_digit (x @ rest) = takeWhile is_digit x"
    by (induction x) (simp_all add: r)
  show "dropWhile is_digit (x @ rest) = dropWhile is_digit x @ rest"
    by (induction x) (simp_all add: r)
qed

lemma scan_int_append:
  assumes "scan_int s = Some (i, r)"
    and "rest = [] \<or> hd rest = 0x2C \<or> hd rest = 0x0A \<or> hd rest = 0x7D \<or> hd rest = 0x5D"
  shows "scan_int (s @ rest) = Some (i, r @ rest)"
  using assms(1) by (cases s) (auto simp: scan_int_def digits_append [OF assms(2)] split: if_splits)

lemma scan_fraction_append:
  assumes "scan_fraction s = Some (f, r)"
    and "rest = [] \<or> hd rest = 0x2C \<or> hd rest = 0x0A \<or> hd rest = 0x7D \<or> hd rest = 0x5D"
  shows "scan_fraction (s @ rest) = Some (f, r @ rest)"
proof (cases s)
  case Nil
  then show ?thesis
    using assms by (cases rest) (auto simp: scan_fraction_def)
next
  case (Cons c cs)
  then show ?thesis
    using assms(1) by (auto simp: scan_fraction_def digits_append [OF assms(2)] split: if_splits)
qed

lemma scan_sign_append:
  assumes "rest = [] \<or> hd rest = 0x2C \<or> hd rest = 0x0A \<or> hd rest = 0x7D \<or> hd rest = 0x5D"
  shows "scan_sign (s @ rest) = (fst (scan_sign s), snd (scan_sign s) @ rest)"
proof (cases s)
  case Nil
  then show ?thesis
    using assms by (cases rest) (auto simp: scan_sign_def)
next
  case (Cons c cs)
  then show ?thesis
    by (simp add: scan_sign_def)
qed

lemma scan_exponent_append:
  assumes "scan_exponent s = Some (e, r)"
    and "rest = [] \<or> hd rest = 0x2C \<or> hd rest = 0x0A \<or> hd rest = 0x7D \<or> hd rest = 0x5D"
  shows "scan_exponent (s @ rest) = Some (e, r @ rest)"
proof (cases s)
  case Nil
  then show ?thesis
    using assms by (cases rest) (auto simp: scan_exponent_def)
next
  case (Cons c cs)
  then show ?thesis
    using assms(1)
    by (auto simp: scan_exponent_def scan_sign_append [OF assms(2)] digits_append [OF assms(2)]
        split: if_splits prod.splits)
qed

lemma scan_minus_append:
  "s \<noteq> [] \<Longrightarrow> scan_minus (s @ rest) = (fst (scan_minus s), snd (scan_minus s) @ rest)"
  by (cases s) (simp_all add: scan_minus_def)

lemma scan_numeral_Nil: "scan_numeral [] = None"
  by (simp add: scan_numeral_def scan_minus_def scan_int_def)

lemma scan_numeral_append:
  assumes "scan_numeral s = Some (t, r)"
    and "rest = [] \<or> hd rest = 0x2C \<or> hd rest = 0x0A \<or> hd rest = 0x7D \<or> hd rest = 0x5D"
  shows "scan_numeral (s @ rest) = Some (t, r @ rest)"
proof -
  have s: "s \<noteq> []"
    using assms(1) by (auto simp: scan_numeral_Nil)
  obtain dash r0 where m: "scan_minus s = (dash, r0)"
    by (cases "scan_minus s")
  obtain i r1 where i: "scan_int r0 = Some (i, r1)"
    using assms(1) by (auto simp: scan_numeral_def m split: option.splits)
  obtain f r2 where f: "scan_fraction r1 = Some (f, r2)"
    using assms(1) by (auto simp: scan_numeral_def m i split: option.splits)
  obtain e r3 where e: "scan_exponent r2 = Some (e, r3)"
    using assms(1) by (auto simp: scan_numeral_def m i f split: option.splits)
  have t: "t = dash @ i @ f @ e" "r = r3"
    using assms(1) by (simp_all add: scan_numeral_def m i f e)
  show ?thesis
    by (simp add: scan_numeral_def scan_minus_append [OF s] m scan_int_append [OF i assms(2)]
        scan_fraction_append [OF f assms(2)] scan_exponent_append [OF e assms(2)] t)
qed

lemma scan_numeral_head:
  assumes "scan_numeral s = Some (t, r)"
  shows "\<exists>c cs. t = c # cs \<and> (c = 0x2D \<or> is_digit c)"
proof -
  obtain dash r0 where m: "scan_minus s = (dash, r0)"
    by (cases "scan_minus s")
  obtain i r1 where i: "scan_int r0 = Some (i, r1)"
    using assms by (auto simp: scan_numeral_def m split: option.splits)
  obtain f r2 where f: "scan_fraction r1 = Some (f, r2)"
    using assms by (auto simp: scan_numeral_def m i split: option.splits)
  obtain e r3 where e: "scan_exponent r2 = Some (e, r3)"
    using assms by (auto simp: scan_numeral_def m i f split: option.splits)
  have t: "t = dash @ i @ f @ e"
    using assms by (simp add: scan_numeral_def m i f e)
  have "dash = [] \<or> dash = [0x2D]"
    using m by (cases s) (auto simp: scan_minus_def split: if_splits)
  moreover have "\<exists>c cs. i = c # cs \<and> is_digit c"
    using i by (cases r0) (auto simp: scan_int_def is_digit_def split: if_splits)
  ultimately show ?thesis
    by (auto simp: t)
qed

text \<open>The text of an integer is a numeral, and the numeral of that integer.\<close>

lemma scan_int_nat_to_string:
  "scan_int (nat_to_string n) = Some (nat_to_string n, [])"
proof (cases "n = 0")
  case True
  then show ?thesis by (simp add: nat_to_string_zero scan_int_def)
next
  case False
  obtain c cs where s: "nat_to_string n = c # cs"
    using nat_to_string_nonempty [of n] by (cases "nat_to_string n") auto
  have c: "c \<noteq> 0x30" "is_digit c" "\<forall>d \<in> set cs. is_digit d"
    using nat_to_string_head [of n] nat_to_string_digits [of n] False by (simp_all add: s)
  then have "takeWhile is_digit cs = cs" "dropWhile is_digit cs = []"
    by (simp_all add: takeWhile_eq_all_conv)
  then show ?thesis
    using c by (simp add: s scan_int_def)
qed

lemma scan_numeral_number_to_string:
  "scan_numeral (number_to_string i) = Some (number_to_string i, [])"
proof -
  obtain c cs where s: "nat_to_string (nat \<bar>i\<bar>) = c # cs"
    using nat_to_string_nonempty [of "nat \<bar>i\<bar>"] by (cases "nat_to_string (nat \<bar>i\<bar>)") auto
  have "is_digit c"
    using nat_to_string_digits [of "nat \<bar>i\<bar>"] by (simp add: s)
  then have c: "c \<noteq> 0x2D"
    by (auto simp: is_digit_def)
  have rest: "scan_fraction [] = Some ([], [])" "scan_exponent [] = Some ([], [])"
    by (simp_all add: scan_fraction_def scan_exponent_def)
  show ?thesis
  proof (cases "i < 0")
    case True
    then have "nat (- i) = nat \<bar>i\<bar>" by simp
    then show ?thesis
      using True scan_int_nat_to_string [of "nat \<bar>i\<bar>"]
      by (simp add: number_to_string_def js_unfold scan_numeral_def scan_minus_def rest)
  next
    case False
    then have eq: "nat_to_string (nat i) = c # cs"
      using s by simp
    show ?thesis
      using False c scan_int_nat_to_string [of "nat i"]
      by (simp add: number_to_string_def scan_numeral_def scan_minus_def rest eq)
  qed
qed

lemma integer_of_number_to_string:
  assumes "\<bar>i\<bar> < 9007199254740992"
  shows "integer_of (number_to_string i) = Some i"
proof -
  obtain c cs where s: "nat_to_string (nat \<bar>i\<bar>) = c # cs"
    using nat_to_string_nonempty [of "nat \<bar>i\<bar>"] by (cases "nat_to_string (nat \<bar>i\<bar>)") auto
  have "is_digit c"
    using nat_to_string_digits [of "nat \<bar>i\<bar>"] by (simp add: s)
  then have c: "c \<noteq> 0x2D"
    by (auto simp: is_digit_def)
  have p: "parse_nat (nat_to_string (nat \<bar>i\<bar>)) = Some (nat \<bar>i\<bar>, [])"
    using parse_nat_nat_to_string [of "[]" "nat \<bar>i\<bar>"] by simp
  have n: "nat \<bar>i\<bar> < 9007199254740992"
    using assms by simp
  show ?thesis
  proof (cases "i < 0")
    case True
    then have "nat (- i) = nat \<bar>i\<bar>" by simp
    then show ?thesis
      using True p n by (simp add: number_to_string_def js_unfold integer_of_def scan_minus_def)
  next
    case False
    then have eq: "nat_to_string (nat i) = c # cs" "nat \<bar>i\<bar> = nat i"
      using s by simp_all
    show ?thesis
      using False p [unfolded s] n c
      by (simp add: number_to_string_def integer_of_def scan_minus_def eq)
  qed
qed

lemma parse_number_number_to_string:
  assumes "rest = [] \<or> hd rest = 0x2C \<or> hd rest = 0x0A \<or> hd rest = 0x7D \<or> hd rest = 0x5D"
    and "\<bar>i\<bar> < 9007199254740992"
  shows "parse_number canonical (number_to_string i @ rest) = Some (JNum i, rest)"
  using scan_numeral_append [OF scan_numeral_number_to_string assms(1), of i]
    integer_of_number_to_string [OF assms(2)]
  by (simp add: parse_number_def number_of_def)

lemma parse_number_float:
  assumes "rest = [] \<or> hd rest = 0x2C \<or> hd rest = 0x0A \<or> hd rest = 0x7D \<or> hd rest = 0x5D"
    and "float_text canonical t"
  shows "parse_number canonical (t @ rest) = Some (JFloat t, rest)"
proof -
  have "scan_numeral (t @ rest) = Some (t, [] @ rest)"
    using assms(2) by (intro scan_numeral_append assms(1)) (simp add: float_text_def)
  then show ?thesis
    using assms(2) by (simp add: parse_number_def number_of_def float_text_def)
qed

subsection \<open>Strings\<close>

lemma unat_of_nat_16:
  "n < 65536 \<Longrightarrow> unat (of_nat n :: 16 word) = n"
  by (subst unsigned_of_nat, subst take_bit_nat_eq_self) simp_all

lemma hex_value_hex_digit:
  assumes "d < 16"
  shows "hex_value (hex_digit d) = Some d"
proof (cases "d < 10")
  case True
  then have "unat (hex_digit d) = 48 + d"
    unfolding hex_digit_def by (simp only: if_True) (rule unat_of_nat_16, simp)
  then show ?thesis
    using True by (simp add: hex_value_def word_le_nat_alt)
next
  case False
  then have "unat (hex_digit d) = 87 + d"
    unfolding hex_digit_def using assms by (simp only: if_False) (rule unat_of_nat_16, simp)
  then show ?thesis
    using False assms by (simp add: hex_value_def word_le_nat_alt)
qed

lemma hex_digits_of:
  fixes n :: nat
  shows "n div 4096 * 4096 + n div 256 mod 16 * 256 + n div 16 mod 16 * 16 + n mod 16 = n"
proof -
  have a: "n div 256 = n div 16 div 16" "n div 4096 = n div 16 div 16 div 16"
    using div_mult2_eq [of n 16 16] div_mult2_eq [of n 256 16] by simp_all
  define x where "x = n div 16"
  define y where "y = x div 16"
  define q where "q = y div 16"
  define r2 where "r2 = y mod 16"
  define r1 where "r1 = x mod 16"
  define r0 where "r0 = n mod 16"
  have "n = x * 16 + r0" "x = y * 16 + r1" "y = q * 16 + r2"
    by (simp_all add: x_def y_def q_def r2_def r1_def r0_def)
  then have "q * 4096 + r2 * 256 + r1 * 16 + r0 = n"
    by linarith
  then show ?thesis
    unfolding a x_def y_def q_def r2_def r1_def r0_def .
qed

lemma hex_digits_less:
  fixes n :: nat
  assumes "n < 65536"
  shows "n div 4096 < 16" "n div 256 mod 16 < 16" "n div 16 mod 16 < 16" "n mod 16 < 16"
  using assms by (simp_all add: less_mult_imp_div_less)

lemma parse_hex4_hex4:
  "parse_hex4 (hex4 c) = Some (c, [])"
proof -
  define n where "n = unat c"
  have n: "n < 65536"
    using unsigned_less [of c, where 'a = nat] by (simp add: n_def)
  note d = hex_digits_less [OF n]
  have "(of_nat n :: 16 word) = c"
    by (simp add: n_def)
  then have "(of_nat (n div 4096 * 4096 + n div 256 mod 16 * 256 + n div 16 mod 16 * 16 + n mod 16) :: 16 word) = c"
    by (simp only: hex_digits_of)
  then show ?thesis
    unfolding parse_hex4_def hex4_def Let_def n_def [symmetric]
    by (simp only: list.case hex_value_hex_digit [OF d(1)] hex_value_hex_digit [OF d(2)]
        hex_value_hex_digit [OF d(3)] hex_value_hex_digit [OF d(4)] prod.case option.case)
qed

lemma parse_chars_quote_unit:
  "parse_chars (quote_unit c @ t) = map_option (\<lambda>(u, r). (c # u, r)) (parse_chars t)"
proof -
  consider "c = 0x08" | "c = 0x09" | "c = 0x0A" | "c = 0x0C" | "c = 0x0D" | "c = 0x22" | "c = 0x5C"
    | "c \<notin> {0x08, 0x09, 0x0A, 0x0C, 0x0D, 0x22, 0x5C}" "c < 0x20 \<or> is_lead c \<or> is_trail c"
    | "c \<notin> {0x08, 0x09, 0x0A, 0x0C, 0x0D, 0x22, 0x5C}" "\<not> (c < 0x20 \<or> is_lead c \<or> is_trail c)"
    by blast
  then show ?thesis
  proof cases
    case 8
    obtain a b x d where h: "hex4 c = [a, b, x, d]"
      by (simp add: hex4_def Let_def)
    have "parse_hex4 [a, b, x, d] = Some (c, [])"
      using parse_hex4_hex4 [of c] by (simp add: h)
    then show ?thesis
      using 8 by (simp add: quote_unit_def h)
  next
    case 9
    then show ?thesis by (simp add: quote_unit_def)
  qed (simp_all add: quote_unit_def unescape_def)
qed

lemma parse_chars_quote_units:
  "parse_chars (quote_units s @ 0x22 # rest) = Some (s, rest)"
proof (induction s rule: quote_units.induct)
  case 1
  then show ?case by simp
next
  case (2 c)
  then show ?case by (simp add: parse_chars_quote_unit)
next
  case (3 c d cs)
  show ?case
  proof (cases "is_lead c \<and> is_trail d")
    case True
    then have n: "c \<noteq> 0x22" "c \<noteq> 0x5C" "\<not> c < 0x20" "d \<noteq> 0x22" "d \<noteq> 0x5C" "\<not> d < 0x20"
      by (auto simp: is_lead_def is_trail_def word_le_nat_alt word_less_nat_alt)
    have q: "quote_units (c # d # cs) = c # d # quote_units cs"
      using True by simp
    have "parse_chars (quote_units cs @ 0x22 # rest) = Some (cs, rest)"
      using 3(1) True by blast
    then show ?thesis
      unfolding q using n by simp
  next
    case False
    then have q: "quote_units (c # d # cs) = quote_unit c @ quote_units (d # cs)"
      by auto
    have "parse_chars (quote_units (d # cs) @ 0x22 # rest) = Some (d # cs, rest)"
      using 3(2) False by blast
    then show ?thesis
      unfolding q by (simp only: append_assoc parse_chars_quote_unit) simp
  qed
qed

subsection \<open>The layout of a printed value\<close>

lemma gap_blank: "set gap \<subseteq> {0x20}" "length gap = 2"
  by (simp_all add: gap_def js_unfold)

lemma newline_blank: "set newline \<subseteq> {0x20, 0x0A}" "length newline = 1" "hd (newline @ s) = 0x0A"
  by (simp_all add: newline_def)

lemma skip_ws_to:
  "set w \<subseteq> {0x20, 0x0A} \<Longrightarrow> \<not> is_ws c \<Longrightarrow> skip_ws (w @ c # s) = c # s"
  by (simp add: skip_ws_blank skip_ws_stop)

lemma starts_with_append: "starts_with w (w @ s) = Some s"
  by (simp add: starts_with_def)

lemma join_Cons:
  "join sep (p # ps) = (if ps = [] then p else p @ sep @ join sep ps)"
  by (cases ps) simp_all

lemma serialize_None: "serialize ind v = None \<longleftrightarrow> v = JUndefined"
  by (cases v) simp_all

lemma json_safe_serialize:
  "json_safe canonical v \<Longrightarrow> \<exists>t. serialize ind v = Some t"
  by (cases v) simp_all

lemma serialize_elements_Nil: "serialize_elements ind xs = [] \<longleftrightarrow> xs = []"
  by (cases xs) simp_all

lemma serialize_members_Nil:
  "json_safe_members canonical kvs \<Longrightarrow> serialize_members ind kvs = [] \<longleftrightarrow> kvs = []"
proof (cases kvs)
  case Nil
  then show ?thesis by simp
next
  case (Cons kv kvs')
  obtain k v where kv: "kv = (k, v)"
    by (cases kv)
  assume "json_safe_members canonical kvs"
  then have "json_safe canonical v"
    by (simp add: Cons kv)
  then obtain t where "serialize ind v = Some t"
    using json_safe_serialize by blast
  then show ?thesis
    by (simp add: Cons kv)
qed

lemma wrap_head:
  "\<exists>cs. wrap l r ind parts = l # cs"
  by (simp add: wrap_def)

lemma serialize_head:
  assumes "serialize ind v = Some t" and "json_safe canonical v"
  shows "\<exists>c cs. t = c # cs \<and> \<not> is_ws c \<and> c \<noteq> 0x5D \<and> c \<noteq> 0x7D \<and> c \<noteq> 0x2C"
proof (cases v)
  case (JNum i)
  obtain c cs where s: "number_to_string i = c # cs" and c: "c = 0x2D \<or> is_digit c"
    using number_to_string_head by blast
  have "\<not> is_ws c \<and> c \<noteq> 0x5D \<and> c \<noteq> 0x7D \<and> c \<noteq> 0x2C"
    using c by (auto simp: is_ws_def is_digit_def)
  moreover have "t = c # cs"
    using assms JNum s by simp
  ultimately show ?thesis
    by blast
next
  case (JFloat u)
  then obtain c cs where s: "u = c # cs" and c: "c = 0x2D \<or> is_digit c"
    using assms(2) scan_numeral_head [of u u "[]"] by (auto simp: float_text_def)
  have "\<not> is_ws c \<and> c \<noteq> 0x5D \<and> c \<noteq> 0x7D \<and> c \<noteq> 0x2C"
    using c by (auto simp: is_ws_def is_digit_def)
  moreover have "t = c # cs"
    using assms JFloat s by simp
  ultimately show ?thesis
    by blast
next
  case (JArr xs)
  then show ?thesis
    using assms wrap_head [where l = "0x5B" and r = "0x5D" and ind = ind
        and parts = "serialize_elements (ind @ gap) xs"]
    by (auto simp: is_ws_def)
next
  case (JObj kvs)
  then show ?thesis
    using assms wrap_head [where l = "0x7B" and r = "0x7D" and ind = ind
        and parts = "serialize_members (ind @ gap) kvs"]
    by (auto simp: is_ws_def)
qed (use assms in \<open>auto simp: js_unfold is_ws_def QuoteJSONString_def\<close>)

lemma update_fresh:
  "k \<notin> fst ` set acc \<Longrightarrow> AList.update k v acc = acc @ [(k, v)]"
  by (induction acc) auto

subsection \<open>Scalars\<close>

lemma parse_value_null:
  "parse_value canonical (Suc n) (js ''null'' @ rest) = Some (JNull, rest)"
proof -
  have "parse_value canonical (Suc n) (js ''null'' @ rest) =
        map_option (Pair JNull) (starts_with (js ''null'') (js ''null'' @ rest))"
    by (simp add: js_unfold skip_ws_def is_ws_def)
  then show ?thesis
    by (simp only: starts_with_append) simp
qed

lemma parse_value_true:
  "parse_value canonical (Suc n) (js ''true'' @ rest) = Some (JBool True, rest)"
proof -
  have "parse_value canonical (Suc n) (js ''true'' @ rest) =
        map_option (Pair (JBool True)) (starts_with (js ''true'') (js ''true'' @ rest))"
    by (simp add: js_unfold skip_ws_def is_ws_def)
  then show ?thesis
    by (simp only: starts_with_append) simp
qed

lemma parse_value_false:
  "parse_value canonical (Suc n) (js ''false'' @ rest) = Some (JBool False, rest)"
proof -
  have "parse_value canonical (Suc n) (js ''false'' @ rest) =
        map_option (Pair (JBool False)) (starts_with (js ''false'') (js ''false'' @ rest))"
    by (simp add: js_unfold skip_ws_def is_ws_def)
  then show ?thesis
    by (simp only: starts_with_append) simp
qed

lemma parse_value_number:
  assumes "rest = [] \<or> hd rest = 0x2C \<or> hd rest = 0x0A \<or> hd rest = 0x7D \<or> hd rest = 0x5D"
    and "\<bar>i\<bar> < 9007199254740992"
  shows "parse_value canonical (Suc n) (number_to_string i @ rest) = Some (JNum i, rest)"
proof -
  obtain c cs where s: "number_to_string i = c # cs" and c: "c = 0x2D \<or> is_digit c"
    using number_to_string_head by blast
  have "\<not> is_ws c" "c \<noteq> 0x22" "c \<noteq> 0x5B" "c \<noteq> 0x7B" "c \<noteq> 0x6E" "c \<noteq> 0x74" "c \<noteq> 0x66"
    using c by (auto simp: is_ws_def is_digit_def)
  then have "parse_value canonical (Suc n) ((c # cs) @ rest) =
             parse_number canonical ((c # cs) @ rest)"
    by (simp add: skip_ws_stop)
  then show ?thesis
    using parse_number_number_to_string [OF assms, of canonical] by (simp only: s)
qed

lemma parse_value_float:
  assumes "rest = [] \<or> hd rest = 0x2C \<or> hd rest = 0x0A \<or> hd rest = 0x7D \<or> hd rest = 0x5D"
    and "float_text canonical t"
  shows "parse_value canonical (Suc n) (t @ rest) = Some (JFloat t, rest)"
proof -
  obtain c cs where s: "t = c # cs" and c: "c = 0x2D \<or> is_digit c"
    using assms(2) scan_numeral_head [of t t "[]"] by (auto simp: float_text_def)
  have "\<not> is_ws c" "c \<noteq> 0x22" "c \<noteq> 0x5B" "c \<noteq> 0x7B" "c \<noteq> 0x6E" "c \<noteq> 0x74" "c \<noteq> 0x66"
    using c by (auto simp: is_ws_def is_digit_def)
  then have "parse_value canonical (Suc n) ((c # cs) @ rest) =
             parse_number canonical ((c # cs) @ rest)"
    by (simp add: skip_ws_stop)
  then show ?thesis
    using parse_number_float [OF assms] by (simp only: s)
qed

lemma parse_value_string:
  "parse_value canonical (Suc n) (QuoteJSONString s @ rest) = Some (JStr s, rest)"
proof -
  have "\<not> is_ws 0x22"
    by (simp add: is_ws_def)
  then have "parse_value canonical (Suc n) (0x22 # quote_units s @ 0x22 # rest) =
        map_option (\<lambda>(t, r). (JStr t, r)) (parse_chars (quote_units s @ 0x22 # rest))"
    by (simp add: skip_ws_stop)
  then show ?thesis
    by (simp add: QuoteJSONString_def parse_chars_quote_units)
qed

lemma parse_value_empty_array:
  "parse_value canonical (Suc n) ([0x5B, 0x5D] @ rest) = Some (JArr [], rest)"
  by (simp add: skip_ws_def is_ws_def)

lemma parse_value_empty_object:
  "parse_value canonical (Suc n) ([0x7B, 0x7D] @ rest) = Some (JObj [], rest)"
  by (simp add: skip_ws_def is_ws_def)

subsection \<open>Values, elements and members\<close>

lemma parse_elements_step:
  assumes x: "parse_value canonical n (tx @ r1) = Some (x, r1)"
    and w: "set w \<subseteq> {0x20, 0x0A}"
    and r1: "skip_ws r1 = c # cs"
  shows "parse_elements canonical (Suc n) acc (w @ tx @ r1) =
         (if c = 0x2C then parse_elements canonical n (acc @ [x]) cs
          else if c = 0x5D then Some (JArr (acc @ [x]), cs) else None)"
proof -
  have "parse_value canonical n (w @ tx @ r1) = Some (x, r1)"
    using x w by (simp only: parse_value_blank)
  then show ?thesis
    by (simp add: r1)
qed

lemma parse_members_step:
  assumes v: "parse_value canonical n (tv @ r1) = Some (v, r1)"
    and w: "set w \<subseteq> {0x20, 0x0A}"
    and r1: "skip_ws r1 = e # es"
  shows "parse_members canonical (Suc n) acc (w @ (QuoteJSONString k @ js '': '' @ tv) @ r1) =
         (if e = 0x2C then parse_members canonical n (AList.update k v acc) es
          else if e = 0x7D then Some (JObj (AList.update k v acc), es) else None)"
proof -
  have q: "w @ (QuoteJSONString k @ js '': '' @ tv) @ r1 =
           w @ 0x22 # (quote_units k @ 0x22 # (0x3A # ([0x20] @ tv @ r1)))"
    by (simp add: QuoteJSONString_def js_unfold)
  have a: "skip_ws (w @ 0x22 # (quote_units k @ 0x22 # (0x3A # ([0x20] @ tv @ r1)))) =
           0x22 # (quote_units k @ 0x22 # (0x3A # ([0x20] @ tv @ r1)))"
    using w by (rule skip_ws_to) (simp add: is_ws_def)
  have b: "skip_ws (0x3A # ([0x20] @ tv @ r1)) = 0x3A # ([0x20] @ tv @ r1)"
    by (rule skip_ws_stop) (simp add: is_ws_def)
  have c: "parse_value canonical n ([0x20] @ tv @ r1) = Some (v, r1)"
    using v by (subst parse_value_blank) simp_all
  show ?thesis
    unfolding q
    by (subst parse_members.simps) (simp only: a b c parse_chars_quote_units list.case
        if_True option.case prod.case r1 refl)
qed

lemma parse_value_array:
  assumes "set w \<subseteq> {0x20, 0x0A}" "\<not> is_ws d" "d \<noteq> 0x5D"
  shows "parse_value canonical (Suc m) (0x5B # w @ d # s) = parse_elements canonical m [] (d # s)"
proof -
  have "skip_ws (0x5B # w @ d # s) = 0x5B # w @ d # s"
    by (rule skip_ws_stop) (simp add: is_ws_def)
  moreover have "skip_ws (w @ d # s) = d # s"
    using assms(1,2) by (rule skip_ws_to)
  ultimately show ?thesis
    using assms(3) by simp
qed

lemma parse_value_object:
  assumes "set w \<subseteq> {0x20, 0x0A}" "\<not> is_ws d" "d \<noteq> 0x7D"
  shows "parse_value canonical (Suc m) (0x7B # w @ d # s) = parse_members canonical m [] (d # s)"
proof -
  have "skip_ws (0x7B # w @ d # s) = 0x7B # w @ d # s"
    by (rule skip_ws_stop) (simp add: is_ws_def)
  moreover have "skip_ws (w @ d # s) = d # s"
    using assms(1,2) by (rule skip_ws_to)
  ultimately show ?thesis
    using assms(3) by simp
qed

lemma closing_tail:
  assumes "set stepback \<subseteq> {0x20}"
  shows "skip_ws (newline @ stepback @ c # rest) = skip_ws (c # rest)"
    and "hd (newline @ stepback @ c # rest) = 0x0A"
proof -
  have "set (newline @ stepback) \<subseteq> {0x20, 0x0A}"
    using assms newline_blank(1) by auto
  then have "skip_ws ((newline @ stepback) @ c # rest) = skip_ws (c # rest)"
    by (rule skip_ws_blank)
  then show "skip_ws (newline @ stepback @ c # rest) = skip_ws (c # rest)"
    by simp
  show "hd (newline @ stepback @ c # rest) = 0x0A"
    by (simp add: newline_def)
qed

lemma read_elements_step:
  assumes x: "\<And>r1. r1 = [] \<or> hd r1 = 0x2C \<or> hd r1 = 0x0A \<or> hd r1 = 0x7D \<or> hd r1 = 0x5D \<Longrightarrow>
                parse_value canonical m (tx @ r1) = Some (x, r1)"
    and xs: "ps \<noteq> [] \<Longrightarrow>
             parse_elements canonical m (acc @ [x]) ((newline @ ind) @ join (0x2C # newline @ ind) ps @
               newline @ stepback @ 0x5D # rest) = Some (JArr ((acc @ [x]) @ xs), rest)"
    and e: "ps = [] \<longleftrightarrow> xs = []"
    and w: "set w \<subseteq> {0x20, 0x0A}" and sb: "set stepback \<subseteq> {0x20}"
  shows "parse_elements canonical (Suc m) acc (w @ join (0x2C # newline @ ind) (tx # ps) @
           newline @ stepback @ 0x5D # rest) = Some (JArr (acc @ x # xs), rest)"
proof (cases "ps = []")
  case True
  define r1 where "r1 = newline @ stepback @ 0x5D # rest"
  have "parse_value canonical m (tx @ r1) = Some (x, r1)"
    by (rule x) (simp add: r1_def closing_tail(2) [OF sb])
  moreover have "skip_ws r1 = 0x5D # rest"
    unfolding r1_def closing_tail(1) [OF sb] by (rule skip_ws_stop) (simp add: is_ws_def)
  ultimately have "parse_elements canonical (Suc m) acc (w @ tx @ r1) = Some (JArr (acc @ [x]), rest)"
    using w by (simp only: parse_elements_step) simp
  then show ?thesis
    using True e by (simp add: r1_def)
next
  case False
  define r2 where "r2 = (newline @ ind) @ join (0x2C # newline @ ind) ps @
    newline @ stepback @ 0x5D # rest"
  have "parse_value canonical m (tx @ 0x2C # r2) = Some (x, 0x2C # r2)"
    by (rule x) simp
  moreover have "skip_ws (0x2C # r2) = 0x2C # r2"
    by (rule skip_ws_stop) (simp add: is_ws_def)
  ultimately have "parse_elements canonical (Suc m) acc (w @ tx @ 0x2C # r2) =
      parse_elements canonical m (acc @ [x]) r2"
    using w by (simp only: parse_elements_step) simp
  moreover have "parse_elements canonical m (acc @ [x]) r2 = Some (JArr ((acc @ [x]) @ xs), rest)"
    unfolding r2_def using False by (rule xs)
  moreover have "w @ join (0x2C # newline @ ind) (tx # ps) @ newline @ stepback @ 0x5D # rest =
      w @ tx @ 0x2C # r2"
    using False by (simp add: join_Cons r2_def)
  ultimately show ?thesis
    by simp
qed

lemma read_members_step:
  assumes v: "\<And>r1. r1 = [] \<or> hd r1 = 0x2C \<or> hd r1 = 0x0A \<or> hd r1 = 0x7D \<or> hd r1 = 0x5D \<Longrightarrow>
                parse_value canonical m (tv @ r1) = Some (v, r1)"
    and kvs: "ps \<noteq> [] \<Longrightarrow>
             parse_members canonical m (acc @ [(k, v)]) ((newline @ ind) @ join (0x2C # newline @ ind) ps @
               newline @ stepback @ 0x7D # rest) = Some (JObj ((acc @ [(k, v)]) @ kvs), rest)"
    and e: "ps = [] \<longleftrightarrow> kvs = []"
    and k: "k \<notin> fst ` set acc"
    and w: "set w \<subseteq> {0x20, 0x0A}" and sb: "set stepback \<subseteq> {0x20}"
  shows "parse_members canonical (Suc m) acc
           (w @ join (0x2C # newline @ ind) ((QuoteJSONString k @ js '': '' @ tv) # ps) @
            newline @ stepback @ 0x7D # rest) = Some (JObj (acc @ (k, v) # kvs), rest)"
proof (cases "ps = []")
  case True
  define r1 where "r1 = newline @ stepback @ 0x7D # rest"
  have "parse_value canonical m (tv @ r1) = Some (v, r1)"
    by (rule v) (simp add: r1_def closing_tail(2) [OF sb])
  moreover have "skip_ws r1 = 0x7D # rest"
    unfolding r1_def closing_tail(1) [OF sb] by (rule skip_ws_stop) (simp add: is_ws_def)
  ultimately have "parse_members canonical (Suc m) acc (w @ (QuoteJSONString k @ js '': '' @ tv) @ r1) =
      Some (JObj (AList.update k v acc), rest)"
    using w by (simp only: parse_members_step) simp
  then show ?thesis
    using True e by (simp add: r1_def update_fresh [OF k])
next
  case False
  define r2 where "r2 = (newline @ ind) @ join (0x2C # newline @ ind) ps @
    newline @ stepback @ 0x7D # rest"
  have "parse_value canonical m (tv @ 0x2C # r2) = Some (v, 0x2C # r2)"
    by (rule v) simp
  moreover have "skip_ws (0x2C # r2) = 0x2C # r2"
    by (rule skip_ws_stop) (simp add: is_ws_def)
  ultimately have "parse_members canonical (Suc m) acc (w @ (QuoteJSONString k @ js '': '' @ tv) @ 0x2C # r2) =
      parse_members canonical m (AList.update k v acc) r2"
    using w by (simp only: parse_members_step) simp
  moreover have "parse_members canonical m (acc @ [(k, v)]) r2 = Some (JObj ((acc @ [(k, v)]) @ kvs), rest)"
    unfolding r2_def using False by (rule kvs)
  moreover have "w @ join (0x2C # newline @ ind) ((QuoteJSONString k @ js '': '' @ tv) # ps) @
      newline @ stepback @ 0x7D # rest = w @ (QuoteJSONString k @ js '': '' @ tv) @ 0x2C # r2"
    using False by (simp add: join_Cons r2_def)
  ultimately show ?thesis
    by (simp add: update_fresh [OF k])
qed

lemma wrap_parts:
  assumes "parts \<noteq> []"
  shows "wrap l r ind parts =
         l # (newline @ ind @ gap) @ join (0x2C # newline @ ind @ gap) parts @ newline @ ind @ [r]"
    and "length (wrap l r ind parts) =
         6 + 2 * length ind + length (join (0x2C # newline @ ind @ gap) parts)"
  using assms by (simp_all add: wrap_def js_unfold gap_blank(2) newline_blank(2))

lemma join_head:
  "\<exists>s. join sep ((d # ds) # ps) = d # s"
  by (simp add: join_Cons)

lemma read_array:
  assumes parts: "parts = (d # ds) # ps" "\<not> is_ws d" "d \<noteq> 0x5D"
    and ind: "set ind \<subseteq> {0x20}"
    and elements: "parse_elements canonical m [] ([] @ join (0x2C # newline @ ind @ gap) parts @
                     newline @ ind @ 0x5D # rest) = Some (JArr ([] @ xs), rest)"
  shows "parse_value canonical (Suc m) (wrap 0x5B 0x5D ind parts @ rest) = Some (JArr xs, rest)"
proof -
  obtain s where s: "join (0x2C # newline @ ind @ gap) parts = d # s"
    using join_head parts(1) by blast
  have ne: "parts \<noteq> []"
    using parts(1) by simp
  have w: "set (newline @ ind @ gap) \<subseteq> {0x20, 0x0A}"
    using ind gap_blank(1) newline_blank(1) by auto
  have "wrap 0x5B 0x5D ind parts @ rest =
        0x5B # (newline @ ind @ gap) @ d # (s @ newline @ ind @ 0x5D # rest)"
    using ne by (simp add: wrap_parts(1) s)
  then have "parse_value canonical (Suc m) (wrap 0x5B 0x5D ind parts @ rest) =
        parse_elements canonical m [] (d # (s @ newline @ ind @ 0x5D # rest))"
    using parse_value_array [OF w parts(2,3)] by simp
  then show ?thesis
    using elements by (simp add: s)
qed

lemma read_object:
  assumes parts: "parts = (d # ds) # ps" "\<not> is_ws d" "d \<noteq> 0x7D"
    and ind: "set ind \<subseteq> {0x20}"
    and members: "parse_members canonical m [] ([] @ join (0x2C # newline @ ind @ gap) parts @
                     newline @ ind @ 0x7D # rest) = Some (JObj ([] @ kvs), rest)"
  shows "parse_value canonical (Suc m) (wrap 0x7B 0x7D ind parts @ rest) = Some (JObj kvs, rest)"
proof -
  obtain s where s: "join (0x2C # newline @ ind @ gap) parts = d # s"
    using join_head parts(1) by blast
  have ne: "parts \<noteq> []"
    using parts(1) by simp
  have w: "set (newline @ ind @ gap) \<subseteq> {0x20, 0x0A}"
    using ind gap_blank(1) newline_blank(1) by auto
  have "wrap 0x7B 0x7D ind parts @ rest =
        0x7B # (newline @ ind @ gap) @ d # (s @ newline @ ind @ 0x7D # rest)"
    using ne by (simp add: wrap_parts(1) s)
  then have "parse_value canonical (Suc m) (wrap 0x7B 0x7D ind parts @ rest) =
        parse_members canonical m [] (d # (s @ newline @ ind @ 0x7D # rest))"
    using parse_value_object [OF w parts(2,3)] by simp
  then show ?thesis
    using members by (simp add: s)
qed

lemma serialize_elements_head:
  assumes "json_safe_list canonical xs" "xs \<noteq> []"
  shows "\<exists>d ds ps. serialize_elements ind xs = (d # ds) # ps \<and> \<not> is_ws d \<and> d \<noteq> 0x5D"
proof -
  obtain x xs' where xs: "xs = x # xs'"
    using assms(2) by (cases xs) auto
  then have safe: "json_safe canonical x"
    using assms(1) by simp
  then obtain t where t: "serialize ind x = Some t"
    using json_safe_serialize by blast
  then obtain d ds where "t = d # ds" "\<not> is_ws d" "d \<noteq> 0x5D"
    using serialize_head [OF t safe] by blast
  then show ?thesis
    using xs t by simp
qed

lemma serialize_members_head:
  assumes "json_safe_members canonical kvs" "kvs \<noteq> []"
  shows "\<exists>d ds ps. serialize_members ind kvs = (d # ds) # ps \<and> \<not> is_ws d \<and> d \<noteq> 0x7D"
proof -
  obtain k v kvs' where kvs: "kvs = (k, v) # kvs'"
    using assms(2) by (cases kvs) auto
  then obtain t where t: "serialize ind v = Some t"
    using assms(1) json_safe_serialize [where v = v and ind = ind] by auto
  have "\<not> is_ws 0x22"
    by (simp add: is_ws_def)
  then show ?thesis
    using kvs t by (simp add: QuoteJSONString_def)
qed

lemma read_back:
  fixes ind :: jsstring
  shows read_value:
    "json_safe canonical v \<Longrightarrow> set ind \<subseteq> {0x20} \<Longrightarrow> serialize ind v = Some t \<Longrightarrow>
     rest = [] \<or> hd rest = 0x2C \<or> hd rest = 0x0A \<or> hd rest = 0x7D \<or> hd rest = 0x5D \<Longrightarrow>
     length t \<le> n \<Longrightarrow> parse_value canonical n (t @ rest) = Some (v, rest)"
  and read_elements:
    "json_safe_list canonical xs \<Longrightarrow> xs \<noteq> [] \<Longrightarrow> set ind \<subseteq> {0x20} \<Longrightarrow>
     set w \<subseteq> {0x20, 0x0A} \<Longrightarrow> set stepback \<subseteq> {0x20} \<Longrightarrow>
     length (join (0x2C # newline @ ind) (serialize_elements ind xs)) < n \<Longrightarrow>
     parse_elements canonical n acc (w @ join (0x2C # newline @ ind) (serialize_elements ind xs) @
       newline @ stepback @ 0x5D # rest) = Some (JArr (acc @ xs), rest)"
  and read_members:
    "json_safe_members canonical kvs \<Longrightarrow> kvs \<noteq> [] \<Longrightarrow> distinct (map fst kacc @ map fst kvs) \<Longrightarrow>
     set ind \<subseteq> {0x20} \<Longrightarrow> set w \<subseteq> {0x20, 0x0A} \<Longrightarrow> set stepback \<subseteq> {0x20} \<Longrightarrow>
     length (join (0x2C # newline @ ind) (serialize_members ind kvs)) < n \<Longrightarrow>
     parse_members canonical n kacc (w @ join (0x2C # newline @ ind) (serialize_members ind kvs) @
       newline @ stepback @ 0x7D # rest) = Some (JObj (kacc @ kvs), rest)"
proof (induction ind v and ind xs and ind kvs
    arbitrary: t rest n and acc w stepback rest n and kacc w stepback rest n
    rule: serialize_serialize_elements_serialize_members.induct)
  case (1 ind)
  then show ?case by simp
next
  case (2 ind)
  then obtain m where "n = Suc m" "t = js ''null''"
    by (cases n) (auto simp: js_unfold)
  then show ?case
    by (simp only: parse_value_null)
next
  case (3 ind b)
  then have t: "t = (if b then js ''true'' else js ''false'')"
    by simp
  then have "t \<noteq> []"
    by simp
  then obtain m where n: "n = Suc m"
    using "3.prems"(5) by (cases n) auto
  show ?case
    unfolding n t by (cases b) (simp_all only: if_True if_False parse_value_true parse_value_false)
next
  case (4 ind i)
  obtain c cs where "number_to_string i = c # cs"
    using number_to_string_head by blast
  then obtain m where "n = Suc m" "t = number_to_string i"
    using 4 by (cases n) auto
  then show ?case
    using 4(4) 4(1) [simplified] by (simp only: parse_value_number)
next
  case (5 ind u)
  then obtain c cs where "u = c # cs"
    using scan_numeral_head [of u u "[]"] by (auto simp: float_text_def)
  then obtain m where "n = Suc m" "t = u"
    using 5 by (cases n) auto
  then show ?case
    using 5(4) 5(1) [simplified] by (simp only: parse_value_float)
next
  case (6 ind)
  then show ?case by simp
next
  case (7 ind s)
  then obtain m where "n = Suc m" "t = QuoteJSONString s"
    by (cases n) (auto simp: QuoteJSONString_def)
  then show ?case
    by (simp only: parse_value_string)
next
  case (8 ind xs)
  have t: "t = wrap 0x5B 0x5D ind (serialize_elements (ind @ gap) xs)"
    using "8.prems"(3) by simp
  show ?case
  proof (cases "xs = []")
    case True
    then have "t = [0x5B, 0x5D]"
      using t by (simp add: wrap_def)
    moreover from this obtain m where "n = Suc m"
      using "8.prems"(5) by (cases n) auto
    ultimately show ?thesis
      using True by (simp only: parse_value_empty_array)
  next
    case False
    have safe: "json_safe_list canonical xs"
      using "8.prems"(1) by simp
    obtain d ds ps where parts: "serialize_elements (ind @ gap) xs = (d # ds) # ps"
        "\<not> is_ws d" "d \<noteq> 0x5D"
      using serialize_elements_head [OF safe False] by blast
    have "length t = 6 + 2 * length ind +
        length (join (0x2C # newline @ ind @ gap) (serialize_elements (ind @ gap) xs))"
      unfolding t by (rule wrap_parts(2)) (simp add: parts(1))
    then obtain m where n: "n = Suc m"
      and m: "length (join (0x2C # newline @ ind @ gap) (serialize_elements (ind @ gap) xs)) < m"
      using "8.prems"(5) by (cases n) auto
    have "parse_elements canonical m [] ([] @ join (0x2C # newline @ (ind @ gap))
            (serialize_elements (ind @ gap) xs) @ newline @ ind @ 0x5D # rest) =
          Some (JArr ([] @ xs), rest)"
      using "8.prems"(2) gap_blank(1) m by (intro "8.IH" safe False) auto
    then show ?thesis
      unfolding n t using parts "8.prems"(2) by (intro read_array) simp_all
  qed
next
  case (9 ind kvs)
  have t: "t = wrap 0x7B 0x7D ind (serialize_members (ind @ gap) kvs)"
    using "9.prems"(3) by simp
  show ?case
  proof (cases "kvs = []")
    case True
    then have "t = [0x7B, 0x7D]"
      using t by (simp add: wrap_def)
    moreover from this obtain m where "n = Suc m"
      using "9.prems"(5) by (cases n) auto
    ultimately show ?thesis
      using True by (simp only: parse_value_empty_object)
  next
    case False
    have safe: "json_safe_members canonical kvs" and keys: "distinct (map fst [] @ map fst kvs)"
      using "9.prems"(1) by simp_all
    obtain d ds ps where parts: "serialize_members (ind @ gap) kvs = (d # ds) # ps"
        "\<not> is_ws d" "d \<noteq> 0x7D"
      using serialize_members_head [OF safe False] by blast
    have "length t = 6 + 2 * length ind +
        length (join (0x2C # newline @ ind @ gap) (serialize_members (ind @ gap) kvs))"
      unfolding t by (rule wrap_parts(2)) (simp add: parts(1))
    then obtain m where n: "n = Suc m"
      and m: "length (join (0x2C # newline @ ind @ gap) (serialize_members (ind @ gap) kvs)) < m"
      using "9.prems"(5) by (cases n) auto
    have "parse_members canonical m [] ([] @ join (0x2C # newline @ (ind @ gap))
            (serialize_members (ind @ gap) kvs) @ newline @ ind @ 0x7D # rest) =
          Some (JObj ([] @ kvs), rest)"
      using "9.prems"(2) gap_blank(1) m by (intro "9.IH" safe False keys) auto
    then show ?thesis
      unfolding n t using parts "9.prems"(2) by (intro read_object) simp_all
  qed
next
  case (10 ind r)
  then show ?case by simp
next
  case (11 ind)
  then show ?case by simp
next
  case (12 ind x xs)
  have safe: "json_safe canonical x" "json_safe_list canonical xs"
    using "12.prems"(1) by simp_all
  obtain tx where tx: "serialize ind x = Some tx"
    using json_safe_serialize [OF safe(1)] by blast
  have parts: "serialize_elements ind (x # xs) = tx # serialize_elements ind xs"
    by (simp add: tx)
  have len: "length (join (0x2C # newline @ ind) (tx # serialize_elements ind xs)) < n"
    using "12.prems"(6) by (simp only: parts)
  then obtain m where n: "n = Suc m"
    by (cases n) auto
  have tm: "length tx \<le> m"
    and rm: "xs \<noteq> [] \<Longrightarrow> length (join (0x2C # newline @ ind) (serialize_elements ind xs)) < m"
    using len by (auto simp: n join_Cons serialize_elements_Nil split: if_splits)
  have "parse_elements canonical (Suc m) acc (w @ join (0x2C # newline @ ind) (tx # serialize_elements ind xs) @
          newline @ stepback @ 0x5D # rest) = Some (JArr (acc @ x # xs), rest)"
  proof (rule read_elements_step)
    fix r1 :: jsstring
    assume "r1 = [] \<or> hd r1 = 0x2C \<or> hd r1 = 0x0A \<or> hd r1 = 0x7D \<or> hd r1 = 0x5D"
    then show "parse_value canonical m (tx @ r1) = Some (x, r1)"
      using safe(1) "12.prems"(3) tx tm by (intro "12.IH"(1))
  next
    assume "serialize_elements ind xs \<noteq> []"
    then have xs: "xs \<noteq> []"
      by (simp add: serialize_elements_Nil)
    have "set (newline @ ind) \<subseteq> {0x20, 0x0A}"
      using "12.prems"(3) newline_blank(1) by auto
    then show "parse_elements canonical m (acc @ [x]) ((newline @ ind) @
        join (0x2C # newline @ ind) (serialize_elements ind xs) @ newline @ stepback @ 0x5D # rest) =
        Some (JArr ((acc @ [x]) @ xs), rest)"
      using safe(2) xs "12.prems"(3,5) rm [OF xs] by (intro "12.IH"(2))
  qed (use "12.prems" in \<open>simp_all add: serialize_elements_Nil\<close>)
  then show ?case
    by (simp only: n parts)
next
  case (13 ind)
  then show ?case by simp
next
  case (14 ind k v kvs)
  have safe: "json_safe canonical v" "json_safe_members canonical kvs"
    using "14.prems"(1) by simp_all
  obtain tv where tv: "serialize ind v = Some tv"
    using json_safe_serialize [OF safe(1)] by blast
  have parts: "serialize_members ind ((k, v) # kvs) =
      (QuoteJSONString k @ js '': '' @ tv) # serialize_members ind kvs"
    by (simp add: tv)
  have len: "length (join (0x2C # newline @ ind)
      ((QuoteJSONString k @ js '': '' @ tv) # serialize_members ind kvs)) < n"
    using "14.prems"(7) by (simp only: parts)
  then obtain m where n: "n = Suc m"
    by (cases n) auto
  have tm: "length tv \<le> m"
    and rm: "kvs \<noteq> [] \<Longrightarrow> length (join (0x2C # newline @ ind) (serialize_members ind kvs)) < m"
    using len by (auto simp: n join_Cons serialize_members_Nil [OF safe(2)] split: if_splits)
  have "parse_members canonical (Suc m) kacc (w @ join (0x2C # newline @ ind)
          ((QuoteJSONString k @ js '': '' @ tv) # serialize_members ind kvs) @
          newline @ stepback @ 0x7D # rest) = Some (JObj (kacc @ (k, v) # kvs), rest)"
  proof (rule read_members_step)
    fix r1 :: jsstring
    assume "r1 = [] \<or> hd r1 = 0x2C \<or> hd r1 = 0x0A \<or> hd r1 = 0x7D \<or> hd r1 = 0x5D"
    then show "parse_value canonical m (tv @ r1) = Some (v, r1)"
      using safe(1) "14.prems"(4) tv tm by (intro "14.IH"(1))
  next
    assume "serialize_members ind kvs \<noteq> []"
    then have kvs: "kvs \<noteq> []"
      by (simp add: serialize_members_Nil [OF safe(2)])
    have "set (newline @ ind) \<subseteq> {0x20, 0x0A}"
      using "14.prems"(4) newline_blank(1) by auto
    moreover have "distinct (map fst (kacc @ [(k, v)]) @ map fst kvs)"
      using "14.prems"(3) by simp
    ultimately show "parse_members canonical m (kacc @ [(k, v)]) ((newline @ ind) @
        join (0x2C # newline @ ind) (serialize_members ind kvs) @ newline @ stepback @ 0x7D # rest) =
        Some (JObj ((kacc @ [(k, v)]) @ kvs), rest)"
      using safe(2) kvs "14.prems"(4,6) rm [OF kvs] tv by (intro "14.IH"(3))
  next
    show "k \<notin> fst ` set kacc"
      using "14.prems"(3) by auto
  qed (use "14.prems" in \<open>simp_all add: serialize_members_Nil [OF safe(2)]\<close>)
  then show ?case
    by (simp only: n parts)
qed

subsection \<open>A text and the value it is read as\<close>

lemma JSON_parse_serialize:
  assumes "json_safe canonical v" "serialize [] v = Some t"
  shows "JSON_parse canonical t = Some v"
proof -
  have "parse_value canonical (Suc (2 * length t)) (t @ []) = Some (v, [])"
    using assms by (intro read_value [where ind = "[]"]) simp_all
  then show ?thesis
    by (simp add: JSON_parse_def skip_ws_def)
qed

lemma exportToJson_serialize:
  "serialize [] (JArr (map event_object (events t))) = Some (exportToJson t)"
  by (simp add: exportToJson_def)

lemma json_safe_list_map:
  "json_safe_list canonical (map f es) \<longleftrightarrow> (\<forall>e \<in> set es. json_safe canonical (f e))"
  by (induction es) simp_all

lemma json_safe_event_object:
  "json_safe canonical (event_object e) \<longleftrightarrow> json_safe canonical (data e) \<and> \<bar>timestamp e\<bar> < 9007199254740992"
  by (auto simp: event_object_def)

lemma handoff_trace_events:
  "events (handoff_trace v) =
     [\<lparr>timestamp = 1700000000000, etype = handoff,
       data = JObj [(js ''from'', JStr (js ''A'')), (js ''to'', JStr (js ''B'')),
                    (js ''context_update'', JObj [(js ''score'', v)])]\<rparr>]"
  by (simp add: handoff_trace_def addEvent_def new_swarm_def node_host_def)

lemma exportToJson_NaN:
  "exportToJson (handoff_trace JNaN) = exportToJson (handoff_trace JNull)"
  by (simp add: exportToJson_def handoff_trace_events event_object_def)

section \<open>The context variables after a round of tool calls (scenario C)\<close>

text \<open>
  C1. When the model requests a batch of tool calls and \<open>run\<close> executes it, the context
  variables after the round are those before it with the deltas produced by the calls
  merged onto them in the order of the calls: for every key, the delta of the last call
  that sets it decides its value.
\<close>

theorem deltas_merge_in_order:
  assumes g: "getChatCompletion p (currentAgent s) (arrays (heap s) (currentMessages s))
                (objects (heap s) (currentContextVars s)) model_override = Inr rm"
    and t: "rm_tool_calls rm = Some toolCalls" "toolCalls \<noteq> []"
    and ends: "run_body h p True model_override s = Break s' \<or>
               run_body h p True model_override s = Continue s'"
  shows "let deltas = map (call_delta h (functionMap h (agent_functions (currentAgent s)))
                             (objects (heap s) (currentContextVars s))) toolCalls;
             final = props (objects (heap s') (currentContextVars s'))
         in final = merged (props (objects (heap s) (currentContextVars s))) deltas \<and>
            (\<forall>i k v. i < length deltas \<and> props (deltas ! i) k = Some v \<and>
                      (\<forall>j. i < j \<and> j < length deltas \<longrightarrow> props (deltas ! j) k = None) \<longrightarrow>
                      final k = Some v)"
proof -
  define cur where "cur = objects (heap s) (currentContextVars s)"
  define deltas where
    "deltas = map (call_delta h (functionMap h (agent_functions (currentAgent s))) cur) toolCalls"
  obtain sw1 r1 where v: "validateMessages h (currentAgent s) (arrays (heap s) (currentMessages s))
                            (this s) = (sw1, r1)"
    by (cases "validateMessages h (currentAgent s) (arrays (heap s) (currentMessages s)) (this s)")
  have r1: "r1 = None"
  proof (cases r1)
    case (Some e)
    with v ends show ?thesis using run_body_rejected [of h s sw1 e p True model_override] by auto
  qed simp
  define sw2 where
    "sw2 = (record_event h model_call
              (model_call_data model_override (currentAgent s)
                 (arrays (heap s) (currentMessages s))) sw1)
           \<lparr>backend_calls := Suc (backend_calls sw1)\<rparr>"
  obtain sw3 r3 where c: "checkOutput h (currentAgent s) (rm_content rm) sw2 = (sw3, r3)"
    by (cases "checkOutput h (currentAgent s) (rm_content rm) sw2")
  have r3: "r3 = None"
  proof (cases r3)
    case (Some e)
    with v r1 g c ends show ?thesis
      by (auto simp: run_body_def Let_def sw2_def [symmetric])
  qed simp
  obtain sw4 r4 where d: "handleToolCalls h toolCalls (agent_functions (currentAgent s)) cur sw3 =
                          (sw4, r4)"
    by (cases "handleToolCalls h toolCalls (agent_functions (currentAgent s)) cur sw3")
  obtain tr where r4: "r4 = Inr tr"
  proof (cases r4)
    case (Inl e)
    from run_body_tools_abort [OF v [unfolded r1] g c [unfolded sw2_def r3] t
        d [unfolded cur_def Inl]] ends
    show ?thesis by auto
  qed simp
  from run_body_tools [OF v [unfolded r1] g c [unfolded sw2_def r3] t d [unfolded cur_def r4]] ends
  have "objects (heap s') (currentContextVars s') = spread (spread [] cur) (tr_context_variables tr)"
    by (auto simp: cur_def split: if_splits)
  then have "props (objects (heap s') (currentContextVars s')) =
             props cur ++ props (tr_context_variables tr)"
    by (simp add: props_spread props_copy)
  also have "\<dots> = props cur ++ merged Map.empty deltas"
    using handleToolCalls_delta [OF d [unfolded r4]] by (simp add: deltas_def)
  also have "\<dots> = merged (props cur) deltas"
    by (simp add: merged_add)
  finally have final: "props (objects (heap s') (currentContextVars s')) = merged (props cur) deltas" .
  show ?thesis
    unfolding Let_def cur_def [symmetric] deltas_def [symmetric] final
    by (auto intro: merged_later_wins)
qed

lemma setter_agent_facts:
  "accepts setter_agent (arrays hi_store 0)"
  "createChatCompletion
     (requests [call_of (js ''1'') (js ''setA1''), call_of (js ''2'') (js ''setA2'')])
     (createParams setter_agent (arrays hi_store 0) (spread [] (objects hi_store 1)) None False) =
   Inr \<lparr>rm_content = None,
        rm_tool_calls = Some [call_of (js ''1'') (js ''setA1''), call_of (js ''2'') (js ''setA2'')]\<rparr>"
  "snd (handleToolCalls node_host
          [call_of (js ''1'') (js ''setA1''), call_of (js ''2'') (js ''setA2'')]
          (agent_functions setter_agent) (spread [] (objects hi_store 1)) sw3) =
   Inr \<lparr>tr_messages = [tool_message [] (js ''setA1'') (js ''1''),
                        tool_message [] (js ''setA2'') (js ''2'')],
        tr_agent = None, tr_context_variables = [(js ''a'', JNum 2)]\<rparr>"
  "map (call_delta node_host (functionMap node_host (agent_functions setter_agent)) [])
     [call_of (js ''1'') (js ''setA1''), call_of (js ''2'') (js ''setA2'')] =
   [[(js ''a'', JNum 1)], [(js ''a'', JNum 2)]]"
  by (simp_all add: accepts_def setter_agent_def new_agent_def hi_store_def user_says_def
      validateInput_def validate_def requests_def createParams_def functionMap_def callable_def
      handleToolCalls_def handleToolCall_def try_call_def call_of_def serializeResult_def
      handleFunctionResult_def spread_def call_delta_def Let_def)

theorem deltas_merge_in_order_witness:
  "props (objects
            (heap (state_of (run_body node_host
               (requests [call_of (js ''1'') (js ''setA1''), call_of (js ''2'') (js ''setA2'')])
               True None (run_init node_host new_swarm hi_store setter_agent 0 1))))
            (currentContextVars (state_of (run_body node_host
               (requests [call_of (js ''1'') (js ''setA1''), call_of (js ''2'') (js ''setA2'')])
               True None (run_init node_host new_swarm hi_store setter_agent 0 1)))))
     (js ''a'') = Some (JNum 2) \<and>
   final_context
     (run node_host
        (requests [call_of (js ''1'') (js ''setA1''), call_of (js ''2'') (js ''setA2'')])
        new_swarm hi_store setter_agent 0 1 \<infinity> True None) = Some [(js ''a'', JNum 2)]"
proof -
  define tcs where "tcs = [call_of (js ''1'') (js ''setA1''), call_of (js ''2'') (js ''setA2'')]"
  define p where "p = requests tcs"
  define s0 where "s0 = run_init node_host new_swarm hi_store setter_agent 0 1"
  define rm where "rm = \<lparr>rm_content = None, rm_tool_calls = Some tcs\<rparr>"
  note facts = setter_agent_facts [folded tcs_def, folded p_def rm_def]
  have s0: "currentAgent s0 = setter_agent"
    "arrays (heap s0) (currentMessages s0) = arrays hi_store 0"
    "objects (heap s0) (currentContextVars s0) = spread [] (objects hi_store 1)"
    by (simp_all add: s0_def)
  have g: "getChatCompletion p (currentAgent s0) (arrays (heap s0) (currentMessages s0))
             (objects (heap s0) (currentContextVars s0)) None = Inr rm"
    using facts(2) by (simp add: getChatCompletion_def s0)
  have t: "rm_tool_calls rm = Some tcs" "tcs \<noteq> []"
    by (simp_all add: rm_def tcs_def)
  \<comment> \<open>the pass\<close>
  obtain sw1 where v: "validateMessages node_host setter_agent (arrays hi_store 0) (this s0) =
                       (sw1, None)"
    using validateMessages_accepts [OF facts(1), of node_host "this s0"]
    by (cases "validateMessages node_host setter_agent (arrays hi_store 0) (this s0)") auto
  define sw2 where
    "sw2 = (record_event node_host model_call
              (model_call_data None setter_agent (arrays hi_store 0)) sw1)
           \<lparr>backend_calls := Suc (backend_calls sw1)\<rparr>"
  have c: "checkOutput node_host setter_agent (rm_content rm)
             ((record_event node_host model_call
                 (model_call_data None setter_agent (arrays hi_store 0)) sw1)
              \<lparr>backend_calls := Suc (backend_calls sw1)\<rparr>) = (sw2, None)"
    by (simp add: checkOutput_def rm_def sw2_def)
  obtain sw4 where d: "handleToolCalls node_host tcs (agent_functions setter_agent)
                         (spread [] (objects hi_store 1)) sw2 =
        (sw4, Inr \<lparr>tr_messages = [tool_message [] (js ''setA1'') (js ''1''),
                                   tool_message [] (js ''setA2'') (js ''2'')],
                   tr_agent = None, tr_context_variables = [(js ''a'', JNum 2)]\<rparr>)"
    using facts(3) [of sw2]
    by (cases "handleToolCalls node_host tcs (agent_functions setter_agent)
                 (spread [] (objects hi_store 1)) sw2") auto
  from run_body_tools [of node_host s0 sw1 p None rm sw2 tcs sw4, unfolded s0,
      OF v g [unfolded s0] c t d]
  obtain s1 where s1: "run_body node_host p True None s0 = Break s1"
    by auto
  from deltas_merge_in_order [OF g t, of node_host s1] s1
  have "props (objects (heap s1) (currentContextVars s1)) =
        merged (props []) [[(js ''a'', JNum 1)], [(js ''a'', JNum 2)]]"
    by (simp add: Let_def s0 facts(4) [folded tcs_def])
  then have pass: "props (objects (heap (state_of (run_body node_host p True None s0)))
                      (currentContextVars (state_of (run_body node_host p True None s0))))
                     (js ''a'') = Some (JNum 2)"
    by (simp add: s1 state_of_def)
  \<comment> \<open>the run\<close>
  have out: "output_checked setter_agent (rm_content rm)"
    by (simp add: output_checked_def rm_def)
  have turns: "(0::enat) < \<infinity>" by simp
  from run_one_round [OF facts(1) facts(2) out t facts(3) _ turns, of new_swarm]
  have "final_context (run node_host p new_swarm hi_store setter_agent 0 1 \<infinity> True None) =
        Some [(js ''a'', JNum 2)]"
    by (auto simp: final_context_def spread_def)
  with pass show ?thesis
    by (simp add: p_def tcs_def s0_def)
qed

section \<open>A plain answer (scenario A)\<close>

text \<open>
  C2. When \<open>max_turns\<close> is at least 1, the input passes validation, the model answers
  with a message that requests no tool call (it has no list of tool calls, or an empty
  one), and the check of its text against the output rules returns (with or without
  failures: they are only recorded; the check itself throws when a rule throws a value
  that has no string form), \<open>run\<close> returns after one request to the provider, and the
  messages it returns are the input messages followed by the assistant's message. The
  rendered system message is the first message of the request sent to the provider; it is
  not among the messages returned.
\<close>

theorem plain_answer:
  assumes ok: "accepts a (arrays st messages)"
    and answer: "createChatCompletion p
                   (createParams a (arrays st messages) (spread [] (objects st context_variables))
                      model_override False) = Inr rm"
    and plain: "rm_tool_calls rm = None \<or> rm_tool_calls rm = Some []"
    and out: "output_checked a (rm_content rm)"
    and turns: "0 < max_turns"
  shows "\<exists>sw' st' r.
           run h p sw st a messages context_variables max_turns execute_tools model_override =
             Some (sw', st', Inr r) \<and>
           arrays st' (res_messages r) = arrays st messages @ [assistant_message rm] \<and>
           res_agent r = a \<and>
           backend_calls sw' = Suc (backend_calls sw) \<and>
           hd (req_messages (createParams a (arrays st messages)
                 (spread [] (objects st context_variables)) model_override False)) =
             system_says (getInstructions a (spread [] (objects st context_variables)))"
proof -
  define s0 where "s0 = run_init h sw st a messages context_variables"
  have s0: "currentAgent s0 = a" "turns s0 = 0"
    "arrays (heap s0) (currentMessages s0) = arrays st messages"
    "objects (heap s0) (currentContextVars s0) = spread [] (objects st context_variables)"
    "backend_calls (this s0) = backend_calls sw"
    by (simp_all add: s0_def)
  obtain sw1 where v: "validateMessages h a (arrays st messages) (this s0) = (sw1, None)"
    using validateMessages_accepts [OF ok, of h "this s0"]
    by (cases "validateMessages h a (arrays st messages) (this s0)") auto
  define sw2 where
    "sw2 = (record_event h model_call (model_call_data model_override a (arrays st messages)) sw1)
             \<lparr>backend_calls := Suc (backend_calls sw1)\<rparr>"
  obtain sw3 where c: "checkOutput h a (rm_content rm) sw2 = (sw3, None)"
    using checkOutput_checked [OF out, of h sw2] by (cases "checkOutput h a (rm_content rm) sw2") auto
  have b3: "backend_calls sw3 = Suc (backend_calls sw)"
    using checkOutput_frame [OF c] validateMessages_frame [OF v] by (simp add: sw2_def s0)
  have g: "getChatCompletion p a (arrays st messages) (spread [] (objects st context_variables))
             model_override = Inr rm"
    using answer by (simp add: getChatCompletion_def)
  have t: "rm_tool_calls rm = None \<or> rm_tool_calls rm = Some [] \<or> \<not> execute_tools"
    using plain by blast
  define s1 where
    "s1 = s0\<lparr>this := sw3, heap := push (currentMessages s0) (assistant_message rm) (heap s0)\<rparr>"
  have body: "run_body h p execute_tools model_override s0 = Break s1"
    unfolding s1_def
    by (rule run_body_answer [of h s0 sw1 p model_override rm sw3 execute_tools, unfolded s0,
          OF v g c [unfolded sw2_def] t])
  have loop: "run_loop h p max_turns execute_tools model_override s0 = Some (None, s1)"
    using turns body by (subst run_loop_step) (simp_all add: s0 zero_enat_def [symmetric])
  have s1: "this s1 = sw3" "currentAgent s1 = a"
    "arrays (heap s1) (currentMessages s1) = arrays st messages @ [assistant_message rm]"
    by (simp_all add: s1_def) (simp_all add: s0_def)
  from run_returns [OF loop [unfolded s0_def]] s1 b3 show ?thesis
    by (simp add: createParams_def system_says_def Let_def)
qed

theorem plain_answer_witness:
  "accepts (new_agent (js ''Echo'') []) (arrays hi_store 0) \<and>
   output_checked (new_agent (js ''Echo'') []) (Some (js ''Hello'')) \<and>
   final_messages
     (run node_host (says (js ''Hello'')) new_swarm hi_store (new_agent (js ''Echo'') []) 0 1
        \<infinity> True None) =
   Some [user_says (js ''Hi''), assistant_says (js ''Hello'')]"
proof -
  have ok: "accepts (new_agent (js ''Echo'') []) (arrays hi_store 0)"
    by (simp add: accepts_def new_agent_def hi_store_def user_says_def validateInput_def
        validate_def)
  have answer: "createChatCompletion (says (js ''Hello''))
                  (createParams (new_agent (js ''Echo'') []) (arrays hi_store 0)
                     (spread [] (objects hi_store 1)) None False) =
                Inr \<lparr>rm_content = Some (js ''Hello''), rm_tool_calls = None\<rparr>"
    by (simp add: says_def)
  have out: "output_checked (new_agent (js ''Echo'') []) (Some (js ''Hello''))"
    by (simp add: output_checked_def validateOutput_def validate_def new_agent_def)
  have turns: "(0::enat) < \<infinity>" by simp
  from plain_answer [OF ok answer _ _ turns, of node_host new_swarm True]
  show ?thesis using ok out
    by (auto simp: final_messages_def hi_store_def assistant_message_def assistant_says_def)
qed

theorem system_message_not_returned:
  "final_messages
     (run node_host (says (js ''Hello'')) new_swarm hi_store (new_agent (js ''Echo'') []) 0 1
        \<infinity> True None) =
   Some [user_says (js ''Hi''), assistant_says (js ''Hello'')] \<and>
   final_messages
     (run node_host (says (js ''Hello'')) new_swarm hi_store (new_agent (js ''Echo'') []) 0 1
        \<infinity> True None) \<noteq>
   Some [system_says (js ''You are a helpful agent.''), user_says (js ''Hi''),
         assistant_says (js ''Hello'')]"
proof -
  have ok: "accepts (new_agent (js ''Echo'') []) (arrays hi_store 0)"
    by (simp add: accepts_def new_agent_def hi_store_def user_says_def validateInput_def
        validate_def)
  have answer: "createChatCompletion (says (js ''Hello''))
                  (createParams (new_agent (js ''Echo'') []) (arrays hi_store 0)
                     (spread [] (objects hi_store 1)) None False) =
                Inr \<lparr>rm_content = Some (js ''Hello''), rm_tool_calls = None\<rparr>"
    by (simp add: says_def)
  have out: "validateOutput (new_agent (js ''Echo'') []) (js ''Hello'') =
             Inr \<lparr>valid = True, errors = []\<rparr>"
    by (simp add: validateOutput_def validate_def new_agent_def)
  have turns: "(0::enat) < \<infinity>" by simp
  from run_plain_answer [OF ok answer out turns, of node_host new_swarm True]
  show ?thesis
    by (auto simp: final_messages_def hi_store_def user_says_def system_says_def)
qed

section \<open>A return value without a string coercion\<close>

text \<open>
  C3. When a requested call of type \<open>function\<close>, with arguments that parse, names a
  callable of the action list that returns a value that is neither a \<open>Result\<close> nor an
  \<open>Agent\<close> and whose string coercion throws, the dispatch does not abort: what the
  coercion throws is caught by the \<open>catch\<close> block of the call like any failure of the
  call. When it is an \<open>Error\<close>, or a value that has a string coercion, the answer of the
  batch gets a tool message for the call that carries the text of the error, the failure
  is recorded, and the dispatch goes on with the next call.
\<close>

theorem unprintable_result:
  assumes kind: "tc_type toolCall = js ''function''"
    and known: "listed fs (tc_name toolCall) = Some func"
    and args: "parseArguments h (tc_arguments toolCall) = Inr parsedArgs"
    and ret: "func cv parsedArgs = Returns (Plain v)"
    and fails: "String_js v = Inl e"
    and printable: "(case e of ErrorObj _ m \<Rightarrow> Inr m | ThrownValue w \<Rightarrow> String_js w) =
               Inr errorMessage"
  shows "forToolCalls h (functionMap h fs) cv (toolCall # rest) sw response =
         forToolCalls h (functionMap h fs) cv rest
           (record_event h function_return
              (JObj [(js ''name'', JStr (tc_name toolCall)), (js ''error'', JStr errorMessage)])
              ((record_event h function_call
                  (JObj [(js ''name'', JStr (tc_name toolCall)),
                         (js ''arguments'', JStr (tc_arguments toolCall))]) sw)
               \<lparr>invoked := invoked sw @ [tc_name toolCall]\<rparr>))
           (response\<lparr>tr_messages := tr_messages response @
              [tool_message (msg_function @ tc_name toolCall @ msg_execution_error @ errorMessage)
                 (tc_name toolCall) (tc_id toolCall)]\<rparr>)"
  by (simp add: handleToolCall_unprintable
      [where fmap = "functionMap h fs", OF kind functionMap_Some [OF known] args ret fails
        printable])

lemma wordless_agent_facts:
  "listed (agent_functions wordless_agent) (js ''mute'') =
   Some (\<lambda>_ _. Returns (Plain wordless))"
  "functionMap node_host (agent_functions wordless_agent) (js ''ping'') =
   Some (\<lambda>_ _. Returns (Plain (JStr (js ''pong''))))"
  "String_js wordless = Inl (Error (js ''no text''))"
  by (simp_all add: wordless_agent_def new_agent_def functionMap_def callable_def wordless_def)

theorem unprintable_result_witness:
  "listed (agent_functions wordless_agent) (js ''mute'') =
     Some (\<lambda>_ _. Returns (Plain wordless)) \<and>
   String_js wordless = Inl (Error (js ''no text'')) \<and>
   snd (forToolCalls node_host (functionMap node_host (agent_functions wordless_agent)) []
          [call_of (js ''1'') (js ''mute''), call_of (js ''2'') (js ''ping'')] new_swarm
          \<lparr>tr_messages = [], tr_agent = None, tr_context_variables = []\<rparr>) =
     Inr \<lparr>tr_messages =
            [tool_message (msg_function @ js ''mute'' @ msg_execution_error @ js ''no text'')
               (js ''mute'') (js ''1''),
             tool_message (js ''pong'') (js ''ping'') (js ''2'')],
          tr_agent = None, tr_context_variables = []\<rparr>"
proof -
  define tc where "tc = call_of (js ''1'') (js ''mute'')"
  define fs where "fs = agent_functions wordless_agent"
  have tc: "tc_type tc = js ''function''" "tc_name tc = js ''mute''" "tc_id tc = js ''1''"
    "tc_arguments tc = js ''{}''"
    by (simp_all add: tc_def call_of_def)
  have known: "listed fs (tc_name tc) = Some (\<lambda>_ _. Returns (Plain wordless))"
    by (simp add: tc fs_def wordless_agent_facts)
  have args: "parseArguments node_host (tc_arguments tc) = Inr []"
    by (simp add: tc)
  have printable: "(case Error (js ''no text'') of ErrorObj _ m \<Rightarrow> Inr m
              | ThrownValue w \<Rightarrow> String_js w) = Inr (js ''no text'')"
    by (simp add: Error_def)
  note first = unprintable_result [where h = node_host and fs = fs and toolCall = tc
      and func = "\<lambda>_ _. Returns (Plain wordless)" and parsedArgs = "[]" and cv = "[]"
      and v = wordless and e = "Error (js ''no text'')" and errorMessage = "js ''no text''"
      and rest = "[call_of (js ''2'') (js ''ping'')]",
      OF tc(1) known args refl wordless_agent_facts(3) printable]
  have second: "snd (handleToolCall node_host (functionMap node_host fs) []
                       (call_of (js ''2'') (js ''ping'')) sw
                       \<lparr>tr_messages = ms, tr_agent = None, tr_context_variables = []\<rparr>) =
                Inr \<lparr>tr_messages = ms @ [tool_message (js ''pong'') (js ''ping'') (js ''2'')],
                     tr_agent = None, tr_context_variables = []\<rparr>" for sw ms
    by (simp add: handleToolCall_def try_call_def call_of_def fs_def wordless_agent_facts
        serializeResult_def handleFunctionResult_def Let_def)
  have "snd (forToolCalls node_host (functionMap node_host fs) []
               [tc, call_of (js ''2'') (js ''ping'')] new_swarm
               \<lparr>tr_messages = [], tr_agent = None, tr_context_variables = []\<rparr>) =
        Inr \<lparr>tr_messages =
               [tool_message (msg_function @ js ''mute'' @ msg_execution_error @ js ''no text'')
                  (js ''mute'') (js ''1''),
                tool_message (js ''pong'') (js ''ping'') (js ''2'')],
             tr_agent = None, tr_context_variables = []\<rparr>"
    unfolding first forToolCalls_last
    by (simp add: second tc)
  then show ?thesis
    by (simp add: wordless_agent_facts(1,3) tc_def fs_def)
qed

lemma bad_agent_facts:
  "accepts bad_agent (arrays hi_store 0)"
  "createChatCompletion (requests [call_of (js ''1'') (js ''bad'')])
     (createParams bad_agent (arrays hi_store 0) (spread [] (objects hi_store 1)) None False) =
   Inr \<lparr>rm_content = None, rm_tool_calls = Some [call_of (js ''1'') (js ''bad'')]\<rparr>"
  "functionMap node_host (agent_functions bad_agent) (js ''bad'') =
   Some (\<lambda>_ _. Returns (Plain unprintable))"
  "String_js unprintable = Inl cannot_convert"
  by (simp_all add: accepts_def bad_agent_def new_agent_def hi_store_def user_says_def
      validateInput_def validate_def requests_def createParams_def functionMap_def callable_def
      unprintable_def Let_def)

text \<open>The run of the agent whose action returns \<open>{toString: null}\<close> throws nothing and
  returns a tool message for the call.\<close>

theorem unprintable_result_is_not_fatal:
  "final_error
     (run node_host (requests [call_of (js ''1'') (js ''bad'')]) new_swarm hi_store bad_agent 0 1
        \<infinity> True None) = None \<and>
   final_messages
     (run node_host (requests [call_of (js ''1'') (js ''bad'')]) new_swarm hi_store bad_agent 0 1
        \<infinity> True None) =
   Some [user_says (js ''Hi''), assistant_calls [call_of (js ''1'') (js ''bad'')],
         tool_message (msg_function @ js ''bad'' @ msg_execution_error @
                       js ''Cannot convert object to primitive value'') (js ''bad'') (js ''1'')]"
proof -
  define tc where "tc = call_of (js ''1'') (js ''bad'')"
  have tc: "tc_type tc = js ''function''" "tc_name tc = js ''bad''" "tc_id tc = js ''1''"
    "tc_arguments tc = js ''{}''"
    by (simp_all add: tc_def call_of_def)
  define tr where
    "tr = \<lparr>tr_messages = [tool_message (msg_function @ js ''bad'' @ msg_execution_error @
                                          js ''Cannot convert object to primitive value'')
                            (js ''bad'') (js ''1'')],
            tr_agent = None, tr_context_variables = []\<rparr>"
  have out: "output_checked bad_agent (rm_content \<lparr>rm_content = None, rm_tool_calls = Some [tc]\<rparr>)"
    by (simp add: output_checked_def)
  have printable: "(case cannot_convert of ErrorObj _ m \<Rightarrow> Inr m | ThrownValue w \<Rightarrow> String_js w) =
              Inr (js ''Cannot convert object to primitive value'')"
    by (simp add: cannot_convert_def TypeError_def)
  have dispatch: "snd (handleToolCalls node_host [tc] (agent_functions bad_agent)
                        (spread [] (objects hi_store 1)) sw3) = Inr tr" for sw3
    using handleToolCall_unprintable [where fmap = "functionMap node_host (agent_functions bad_agent)"
        and h = node_host and tc = tc and parsedArgs = "[]" and v = unprintable
        and cv = "spread [] (objects hi_store 1)" and sw = sw3
        and resp = "\<lparr>tr_messages = [], tr_agent = None, tr_context_variables = []\<rparr>",
        OF tc(1) bad_agent_facts(3) [folded tc(2)] _ _ bad_agent_facts(4) printable]
    by (simp add: handleToolCalls_single tr_def tc)
  have turns: "(0::enat) < \<infinity>" by simp
  from run_one_round [OF bad_agent_facts(1) bad_agent_facts(2) [folded tc_def] out _ _ dispatch _
      turns, of new_swarm]
  show ?thesis
    by (auto simp: final_messages_def final_error_def hi_store_def assistant_message_def
        assistant_calls_def tr_def tc_def)
qed

section \<open>Rejected input\<close>

text \<open>
  C4. When an input rule of the agent the run starts with rejects a user message, the
  run throws in its first pass: no request is sent to the provider and the trace holds
  no \<open>model_call\<close> event. (The user messages are validated again in every pass, against
  the agent then current; a rejection by an agent reached through a hand-off comes after
  the requests of the earlier passes.)
\<close>

theorem rejected_input:
  assumes bad: "rejects a (arrays st messages)"
    and turns: "0 < max_turns"
  shows "\<exists>sw' st' e.
           run h p sw st a messages context_variables max_turns execute_tools model_override =
             Some (sw', st', Inl e) \<and>
           backend_calls sw' = backend_calls sw \<and>
           events_of model_call sw' = []"
proof -
  define s0 where "s0 = run_init h sw st a messages context_variables"
  obtain sw1 e where v: "validateMessages h a (arrays st messages) (this s0) = (sw1, Some e)"
    using validateMessages_rejects [OF bad, of h "this s0"]
    by (cases "validateMessages h a (arrays st messages) (this s0)") auto
  have f: "backend_calls sw1 = backend_calls sw" "events_of model_call sw1 = []"
    using validateMessages_frame [OF v] by (simp_all add: s0_def)
  have "run_body h p execute_tools model_override s0 = Abort e (s0\<lparr>this := sw1\<rparr>)"
    using v by (intro run_body_rejected) (simp add: s0_def)
  then have "run_loop h p max_turns execute_tools model_override s0 = Some (Some e, s0\<lparr>this := sw1\<rparr>)"
    using turns by (subst run_loop_step) (simp_all add: s0_def zero_enat_def [symmetric])
  from run_throws [OF this [unfolded s0_def]] f show ?thesis
    by simp
qed

theorem rejected_input_witness:
  "rejects strict_agent (arrays hi_store 0) \<and> (0::enat) < \<infinity> \<and>
   map_option backend_calls
     (final_swarm (run node_host (says (js ''Hello'')) new_swarm hi_store strict_agent 0 1 \<infinity>
        True None)) = Some 0 \<and>
   map_option (events_of model_call)
     (final_swarm (run node_host (says (js ''Hello'')) new_swarm hi_store strict_agent 0 1 \<infinity>
        True None)) = Some []"
proof -
  have bad: "rejects strict_agent (arrays hi_store 0)"
    by (simp add: rejects_def strict_agent_def hi_store_def user_says_def validateInput_def
        validate_def)
  have turns: "(0::enat) < \<infinity>" by simp
  from rejected_input [OF bad turns, of node_host "says (js ''Hello'')" new_swarm 1 True None]
  show ?thesis using bad by (auto simp: final_swarm_def new_swarm_def)
qed

text \<open>
  The front agent has no input rule and hands over to the strict agent: the run throws
  in its second pass, after one request to the provider, recorded in the trace.
\<close>

theorem rejected_after_handoff:
  "final_error
     (run node_host (requests [call_of (js ''1'') (js ''transfer'')]) new_swarm hi_store
        front_agent 0 1 \<infinity> True None) =
   Some (Error (msg_input_validation_failed @ js ''no'')) \<and>
   map_option (\<lambda>sw. length (events_of model_call sw))
     (final_swarm
        (run node_host (requests [call_of (js ''1'') (js ''transfer'')]) new_swarm hi_store
           front_agent 0 1 \<infinity> True None)) = Some 1 \<and>
   map_option backend_calls
     (final_swarm
        (run node_host (requests [call_of (js ''1'') (js ''transfer'')]) new_swarm hi_store
           front_agent 0 1 \<infinity> True None)) = Some 1"
proof -
  define tcs where "tcs = [call_of (js ''1'') (js ''transfer'')]"
  define p where "p = requests tcs"
  define s0 where "s0 = run_init node_host new_swarm hi_store front_agent 0 1"
  define rm where "rm = \<lparr>rm_content = None, rm_tool_calls = Some tcs\<rparr>"
  have s0: "currentAgent s0 = front_agent" "turns s0 = 0"
    "arrays (heap s0) (currentMessages s0) = [user_says (js ''Hi'')]"
    "objects (heap s0) (currentContextVars s0) = []"
    "backend_calls (this s0) = 0" "events_of model_call (this s0) = []"
    "enabled (tracer (this s0))"
    by (simp_all add: s0_def hi_store_def new_swarm_def spread_def)
  \<comment> \<open>first pass\<close>
  have "accepts front_agent [user_says (js ''Hi'')]"
    by (simp add: accepts_def front_agent_def new_agent_def user_says_def validateInput_def
        validate_def)
  then obtain sw1 where v1: "validateMessages node_host front_agent [user_says (js ''Hi'')] (this s0)
                             = (sw1, None)"
    using validateMessages_accepts [of front_agent "[user_says (js ''Hi'')]" node_host "this s0"]
    by (cases "validateMessages node_host front_agent [user_says (js ''Hi'')] (this s0)") auto
  define sw2 where
    "sw2 = (record_event node_host model_call
              (model_call_data None front_agent [user_says (js ''Hi'')]) sw1)
           \<lparr>backend_calls := Suc (backend_calls sw1)\<rparr>"
  have g1: "getChatCompletion p front_agent [user_says (js ''Hi'')] [] None = Inr rm"
    by (simp add: getChatCompletion_def createParams_def p_def requests_def rm_def user_says_def
        Let_def)
  have c1: "checkOutput node_host front_agent (rm_content rm)
              ((record_event node_host model_call
                  (model_call_data None front_agent [user_says (js ''Hi'')]) sw1)
               \<lparr>backend_calls := Suc (backend_calls sw1)\<rparr>) = (sw2, None)"
    by (simp add: checkOutput_def rm_def sw2_def)
  obtain sw4 where d1: "handleToolCalls node_host tcs (agent_functions front_agent) [] sw2 =
       (sw4, Inr \<lparr>tr_messages = [], tr_agent = Some strict_agent, tr_context_variables = []\<rparr>)"
    by (simp add: handleToolCalls_def handleToolCall_def try_call_def functionMap_def tcs_def
        call_of_def front_agent_def new_agent_def callable_def serializeResult_def
        handleFunctionResult_def spread_def Let_def)
  from run_body_tools [of node_host s0 sw1 p None rm sw2 tcs sw4, unfolded s0, OF v1 g1 c1 _ _ d1]
  obtain s1 where s1: "run_body node_host p True None s0 = Continue s1"
    "currentAgent s1 = strict_agent" "turns s1 = Suc 0"
    "arrays (heap s1) (currentMessages s1) = [user_says (js ''Hi''), assistant_message rm]"
    by (auto simp: rm_def tcs_def)
  have n1: "backend_calls (this s1) = 1" "length (events_of model_call (this s1)) = 1"
    "enabled (tracer (this s1))"
    using run_body_counts [of node_host p True None s0] s1(1) s0 v1
    by (simp_all add: state_of_def)
  \<comment> \<open>second pass\<close>
  define sw5 where
    "sw5 = record_event node_host guardrail_check (input_validation_failure [js ''no'']) (this s1)"
  have v2: "validateMessages node_host strict_agent
              [user_says (js ''Hi''), assistant_message rm] (this s1) =
            (sw5, Some (Error (msg_input_validation_failed @ js ''no'')))"
    by (simp add: strict_agent_def user_says_def validateInput_def validate_def sw5_def)
  have b2: "run_body node_host p True None s1 =
            Abort (Error (msg_input_validation_failed @ js ''no'')) (s1\<lparr>this := sw5\<rparr>)"
    using v2 by (intro run_body_rejected) (simp add: s1)
  have "run_loop node_host p \<infinity> True None s0 =
        Some (Some (Error (msg_input_validation_failed @ js ''no'')), s1\<lparr>this := sw5\<rparr>)"
    by (simp add: run_loop_step s0 s1 b2)
  from run_throws [OF this [unfolded s0_def]] n1 show ?thesis
    by (simp add: final_error_def final_swarm_def p_def tcs_def sw5_def events_of_record_event)
qed

section \<open>Runs that are not to execute tools\<close>





section \<open>A callable that throws\<close>

text \<open>
  When the callable of the one requested call throws an \<open>Error\<close>, the run does not
  throw: it ends after that round, and the messages it returns hold one tool message
  for the call, whose content names the callable and carries the message of the error.
\<close>

lemma thrown_error_is_reported:
  assumes ok: "accepts a (arrays st messages)"
    and answer: "createChatCompletion p
                   (createParams a (arrays st messages) (spread [] (objects st context_variables))
                      model_override False) = Inr rm"
    and out: "output_checked a (rm_content rm)"
    and call: "rm_tool_calls rm = Some [toolCall]"
    and kind: "tc_type toolCall = js ''function''"
    and known: "functionMap h (agent_functions a) (tc_name toolCall) = Some func"
    and args: "parseArguments h (tc_arguments toolCall) = Inr parsedArgs"
    and throws: "func (spread [] (objects st context_variables)) parsedArgs =
                 Throws (ErrorObj n m)"
    and turns: "0 < max_turns"
  shows "\<exists>sw' st' r.
           run h p sw st a messages context_variables max_turns True model_override =
             Some (sw', st', Inr r) \<and>
           arrays st' (res_messages r) =
             arrays st messages @
             [assistant_message rm,
              tool_message (msg_function @ tc_name toolCall @ msg_execution_error @ m)
                (tc_name toolCall) (tc_id toolCall)]"
proof -
  define tr where
    "tr = \<lparr>tr_messages = [tool_message (msg_function @ tc_name toolCall @ msg_execution_error @ m)
                            (tc_name toolCall) (tc_id toolCall)],
            tr_agent = None, tr_context_variables = []\<rparr>"
  have dispatch: "snd (handleToolCalls h [toolCall] (agent_functions a)
                        (spread [] (objects st context_variables)) sw3) = Inr tr" for sw3
    by (simp add: handleToolCalls_single tr_def
        handleToolCall_throws_error [where fmap = "functionMap h (agent_functions a)",
          OF kind known args throws])
  from run_one_round [OF ok answer out call _ dispatch _ turns, of sw]
  show ?thesis by (auto simp: tr_def)
qed

text \<open>
  C6. The \<open>catch\<close> block of the dispatch turns what was thrown into text with
  \<open>String(error)\<close> when it is not an \<open>Error\<close>, outside any \<open>try\<close>: a callable that
  throws \<open>{toString: null}\<close> makes that coercion throw, and the run throws with it.
\<close>

theorem unprintable_throw_aborts:
  "final_error
     (run node_host (requests [call_of (js ''1'') (js ''boom'')]) new_swarm hi_store boom_agent
        0 1 \<infinity> True None) = Some cannot_convert \<and>
   final_messages
     (run node_host (requests [call_of (js ''1'') (js ''boom'')]) new_swarm hi_store boom_agent
        0 1 \<infinity> True None) = None"
proof -
  define tc where "tc = call_of (js ''1'') (js ''boom'')"
  have tc: "tc_type tc = js ''function''" "tc_name tc = js ''boom''" "tc_id tc = js ''1''"
    "tc_arguments tc = js ''{}''"
    by (simp_all add: tc_def call_of_def)
  have ok: "accepts boom_agent (arrays hi_store 0)"
    by (simp add: accepts_def boom_agent_def new_agent_def hi_store_def user_says_def
        validateInput_def validate_def)
  have answer: "createChatCompletion (requests [tc])
                  (createParams boom_agent (arrays hi_store 0) (spread [] (objects hi_store 1))
                     None False) =
                Inr \<lparr>rm_content = None, rm_tool_calls = Some [tc]\<rparr>"
    by (simp add: requests_def createParams_def hi_store_def user_says_def Let_def)
  have out: "output_checked boom_agent
               (rm_content \<lparr>rm_content = None, rm_tool_calls = Some [tc]\<rparr>)"
    by (simp add: output_checked_def)
  have known: "functionMap node_host (agent_functions boom_agent) (tc_name tc) =
               Some (\<lambda>_ _. Throws (ThrownValue unprintable))"
    by (simp add: functionMap_def boom_agent_def new_agent_def callable_def tc)
  have args: "parseArguments node_host (tc_arguments tc) = Inr []"
    by (simp add: tc)
  have "String_js unprintable = Inl cannot_convert"
    by (simp add: unprintable_def)
  then have dispatch: "snd (handleToolCalls node_host [tc] (agent_functions boom_agent)
                        (spread [] (objects hi_store 1)) sw3) = Inl cannot_convert" for sw3
    using handleToolCall_throws_value [where fmap = "functionMap node_host (agent_functions boom_agent)"
        and cv = "spread [] (objects hi_store 1)" and sw = sw3 and v = unprintable
        and resp = "\<lparr>tr_messages = [], tr_agent = None, tr_context_variables = []\<rparr>",
        OF tc(1) known args]
    by (simp add: handleToolCalls_single)
  have turns: "(0::enat) < \<infinity>" by simp
  from run_one_round_throws [OF ok answer out _ _ dispatch turns, of new_swarm]
  show ?thesis
    by (auto simp: final_error_def final_messages_def tc_def)
qed

section \<open>A call to an unknown action (scenario D)\<close>

lemma functionMap_unknown:
  "unknown_to h fs n \<Longrightarrow> functionMap h fs n = None"
  by (simp add: functionMap_None unknown_to_def list_all_iff)

lemma handleToolCall_unknown:
  assumes "tc_type tc = js ''function''" and "fmap (tc_name tc) = None"
  shows "handleToolCall h fmap cv tc sw resp =
         (record_event h function_return
            (JObj [(js ''name'', JStr (tc_name tc)),
                   (js ''error'', JStr (msg_function @ tc_name tc @ msg_not_found))])
            (record_event h function_call
               (JObj [(js ''name'', JStr (tc_name tc)),
                      (js ''arguments'', JStr (tc_arguments tc))]) sw),
          Inr (resp\<lparr>tr_messages := tr_messages resp @ [not_found_message tc]\<rparr>))"
  using assms by (simp add: handleToolCall_def not_found_message_def Let_def)

text \<open>A batch in which every call of type \<open>function\<close> names an unknown action.\<close>

lemma forToolCalls_unknown:
  assumes "list_all (\<lambda>tc. tc_type tc = js ''function'' \<longrightarrow> fmap (tc_name tc) = None) tcs"
  shows "snd (forToolCalls h fmap cv tcs sw resp) =
         Inr (resp\<lparr>tr_messages := tr_messages resp @
                map not_found_message (filter (\<lambda>tc. tc_type tc = js ''function'') tcs)\<rparr>)"
  using assms
proof (induction tcs arbitrary: sw resp)
  case Nil
  then show ?case by simp
next
  case (Cons tc tcs)
  show ?case
  proof (cases "tc_type tc = js ''function''")
    case True
    then have "fmap (tc_name tc) = None"
      using Cons.prems by simp
    from handleToolCall_unknown [where fmap = fmap, OF True this] Cons.IH Cons.prems True
    show ?thesis
      by simp
  next
    case False
    then show ?thesis
      using Cons.IH Cons.prems by (simp add: handleToolCall_skipped)
  qed
qed

text \<open>
  C7. A requested call of type \<open>function\<close> whose name is unknown (no callable of the
  agent's list has it, and the dispatch table inherits no member of that name) does not
  make the dispatch throw: the two events of the call are recorded, the answer of the
  batch gets one tool message, whose content is the name between the words of the source
  for "function" and "not found", and the dispatch goes on with the next call. A requested
  call of another type is skipped: nothing is recorded and there is no message for it.
  When the input is valid and every call of the batch that the model requests is of one of
  these two kinds, the run returns after that round with the input messages, the
  assistant's message and the tool messages of the unknown calls, in their order.
\<close>

theorem unknown_action:
  "(tc_type toolCall = js ''function'' \<and> unknown_to h fs (tc_name toolCall) \<longrightarrow>
      forToolCalls h (functionMap h fs) cv (toolCall # rest) sw response =
      forToolCalls h (functionMap h fs) cv rest
        (record_event h function_return
           (JObj [(js ''name'', JStr (tc_name toolCall)),
                  (js ''error'', JStr (msg_function @ tc_name toolCall @ msg_not_found))])
           (record_event h function_call
              (JObj [(js ''name'', JStr (tc_name toolCall)),
                     (js ''arguments'', JStr (tc_arguments toolCall))]) sw))
        (response\<lparr>tr_messages := tr_messages response @ [not_found_message toolCall]\<rparr>)) \<and>
   (tc_type toolCall \<noteq> js ''function'' \<longrightarrow>
      forToolCalls h (functionMap h fs) cv (toolCall # rest) sw response =
      forToolCalls h (functionMap h fs) cv rest sw response) \<and>
   (accepts a (arrays st messages) \<and>
    createChatCompletion p
      (createParams a (arrays st messages) (spread [] (objects st context_variables))
         model_override False) = Inr rm \<and>
    output_checked a (rm_content rm) \<and>
    rm_tool_calls rm = Some toolCalls \<and> toolCalls \<noteq> [] \<and>
    list_all (\<lambda>tc. tc_type tc = js ''function'' \<longrightarrow>
                unknown_to h (agent_functions a) (tc_name tc)) toolCalls \<and>
    0 < max_turns \<longrightarrow>
      (\<exists>sw' st' r.
         run h p sw st a messages context_variables max_turns True model_override =
           Some (sw', st', Inr r) \<and>
         arrays st' (res_messages r) =
           arrays st messages @ assistant_message rm #
           map not_found_message (filter (\<lambda>tc. tc_type tc = js ''function'') toolCalls) \<and>
         res_agent r = a))"
proof (intro conjI impI)
  assume "tc_type toolCall = js ''function'' \<and> unknown_to h fs (tc_name toolCall)"
  then show "forToolCalls h (functionMap h fs) cv (toolCall # rest) sw response =
      forToolCalls h (functionMap h fs) cv rest
        (record_event h function_return
           (JObj [(js ''name'', JStr (tc_name toolCall)),
                  (js ''error'', JStr (msg_function @ tc_name toolCall @ msg_not_found))])
           (record_event h function_call
              (JObj [(js ''name'', JStr (tc_name toolCall)),
                     (js ''arguments'', JStr (tc_arguments toolCall))]) sw))
        (response\<lparr>tr_messages := tr_messages response @ [not_found_message toolCall]\<rparr>)"
    by (simp add: handleToolCall_unknown functionMap_unknown)
next
  assume "tc_type toolCall \<noteq> js ''function''"
  then show "forToolCalls h (functionMap h fs) cv (toolCall # rest) sw response =
      forToolCalls h (functionMap h fs) cv rest sw response"
    by (simp add: handleToolCall_skipped)
next
  assume *: "accepts a (arrays st messages) \<and>
    createChatCompletion p
      (createParams a (arrays st messages) (spread [] (objects st context_variables))
         model_override False) = Inr rm \<and>
    output_checked a (rm_content rm) \<and>
    rm_tool_calls rm = Some toolCalls \<and> toolCalls \<noteq> [] \<and>
    list_all (\<lambda>tc. tc_type tc = js ''function'' \<longrightarrow>
                unknown_to h (agent_functions a) (tc_name tc)) toolCalls \<and>
    0 < max_turns"
  define tr where
    "tr = \<lparr>tr_messages = map not_found_message
                            (filter (\<lambda>tc. tc_type tc = js ''function'') toolCalls),
            tr_agent = None, tr_context_variables = []\<rparr>"
  have "list_all (\<lambda>tc. tc_type tc = js ''function'' \<longrightarrow>
                    functionMap h (agent_functions a) (tc_name tc) = None) toolCalls"
    using * by (auto simp: list_all_iff functionMap_unknown)
  then have dispatch: "snd (handleToolCalls h toolCalls (agent_functions a)
                        (spread [] (objects st context_variables)) sw3) = Inr tr" for sw3
    by (simp add: handleToolCalls_def forToolCalls_unknown tr_def)
  from * have ok: "accepts a (arrays st messages)"
    and answer: "createChatCompletion p
      (createParams a (arrays st messages) (spread [] (objects st context_variables))
         model_override False) = Inr rm"
    and out: "output_checked a (rm_content rm)"
    and calls: "rm_tool_calls rm = Some toolCalls" "toolCalls \<noteq> []"
    and turns: "0 < max_turns"
    by simp_all
  from run_one_round [OF ok answer out calls dispatch _ turns, of sw]
  show "\<exists>sw' st' r.
         run h p sw st a messages context_variables max_turns True model_override =
           Some (sw', st', Inr r) \<and>
         arrays st' (res_messages r) =
           arrays st messages @ assistant_message rm #
           map not_found_message (filter (\<lambda>tc. tc_type tc = js ''function'') toolCalls) \<and>
         res_agent r = a"
    by (auto simp: tr_def)
qed


theorem unknown_action_witness:
  "tc_type (call_of (js ''1'') (js ''foo'')) = js ''function'' \<and>
   unknown_to node_host (agent_functions ping_agent) (js ''foo'') \<and>
   tc_type custom_call \<noteq> js ''function'' \<and>
   accepts ping_agent (arrays hi_store 0) \<and>
   snd (forToolCalls node_host (functionMap node_host (agent_functions ping_agent)) []
          [call_of (js ''1'') (js ''foo''), custom_call] new_swarm
          \<lparr>tr_messages = [], tr_agent = None, tr_context_variables = []\<rparr>) =
     Inr \<lparr>tr_messages = [tool_message (msg_function @ js ''foo'' @ msg_not_found) (js ''foo'')
                               (js ''1'')],
          tr_agent = None, tr_context_variables = []\<rparr> \<and>
   final_messages
     (run node_host (requests [call_of (js ''1'') (js ''foo''), custom_call]) new_swarm hi_store
        ping_agent 0 1 \<infinity> True None) =
   Some [user_says (js ''Hi''), assistant_calls [call_of (js ''1'') (js ''foo''), custom_call],
         tool_message (msg_function @ js ''foo'' @ msg_not_found) (js ''foo'') (js ''1'')]"
proof -
  define tc where "tc = call_of (js ''1'') (js ''foo'')"
  define fs where "fs = agent_functions ping_agent"
  define r0 where "r0 = \<lparr>tr_messages = [], tr_agent = None, tr_context_variables = []\<rparr>"
  have tc: "tc_type tc = js ''function''" "tc_name tc = js ''foo''" "tc_id tc = js ''1''"
    by (simp_all add: tc_def call_of_def)
  have other: "tc_type custom_call \<noteq> js ''function''"
    by (simp add: custom_call_def)
  have unknown: "unknown_to node_host fs (js ''foo'')"
    by (simp add: unknown_to_def fs_def ping_agent_def new_agent_def callable_def node_host_def
        node_objectPrototype_def)
  have ok: "accepts ping_agent (arrays hi_store 0)"
    by (simp add: accepts_def ping_agent_def new_agent_def hi_store_def user_says_def
        validateInput_def validate_def)
  have answer: "createChatCompletion (requests [tc, custom_call])
                  (createParams ping_agent (arrays hi_store 0) (spread [] (objects hi_store 1))
                     None False) =
                Inr \<lparr>rm_content = None, rm_tool_calls = Some [tc, custom_call]\<rparr>"
    by (simp add: requests_def createParams_def hi_store_def user_says_def Let_def)
  have out: "output_checked ping_agent
               (rm_content \<lparr>rm_content = None, rm_tool_calls = Some [tc, custom_call]\<rparr>)"
    by (simp add: output_checked_def)
  have turns: "(0::enat) < \<infinity>" by simp
  note first = unknown_action [where toolCall = tc and h = node_host and fs = fs
      and cv = "[]" and rest = "[custom_call]" and sw = new_swarm and response = r0
      and a = ping_agent and st = hi_store and messages = 0 and context_variables = 1
      and p = "requests [tc, custom_call]" and model_override = None
      and rm = "\<lparr>rm_content = None, rm_tool_calls = Some [tc, custom_call]\<rparr>"
      and toolCalls = "[tc, custom_call]" and max_turns = \<infinity>]
  note second = unknown_action [where toolCall = custom_call and h = node_host and fs = fs
      and cv = "[]" and rest = "[]"]
  have unknown': "unknown_to node_host fs (tc_name tc)"
    using unknown by (simp add: tc)
  note f1 = first [THEN conjunct1, THEN mp, OF conjI [OF tc(1) unknown']]
  note f2 = second [THEN conjunct2, THEN conjunct1, THEN mp, OF other]
  note f3 = first [THEN conjunct2, THEN conjunct2, THEN mp]
  have batch: "snd (forToolCalls node_host (functionMap node_host fs) [] [tc, custom_call]
                      new_swarm r0) =
               Inr (r0\<lparr>tr_messages := tr_messages r0 @ [not_found_message tc]\<rparr>)"
    by (simp only: f1 f2 forToolCalls.simps(1) snd_conv)
  have all: "list_all (\<lambda>c. tc_type c = js ''function'' \<longrightarrow>
                          unknown_to node_host (agent_functions ping_agent) (tc_name c))
               [tc, custom_call]"
    using unknown other by (simp add: tc fs_def)
  have "\<exists>sw' st' r.
          run node_host (requests [tc, custom_call]) new_swarm hi_store ping_agent 0 1 \<infinity> True
            None = Some (sw', st', Inr r) \<and>
          arrays st' (res_messages r) =
            arrays hi_store 0 @
            assistant_message \<lparr>rm_content = None, rm_tool_calls = Some [tc, custom_call]\<rparr> #
            map not_found_message (filter (\<lambda>c. tc_type c = js ''function'') [tc, custom_call]) \<and>
          res_agent r = ping_agent"
    by (rule f3) (use ok answer out all turns in simp)
  then have "final_messages
     (run node_host (requests [tc, custom_call]) new_swarm hi_store ping_agent 0 1 \<infinity> True None) =
     Some [user_says (js ''Hi''), assistant_calls [tc, custom_call], not_found_message tc]"
    using tc(1) other
    by (auto simp: final_messages_def assistant_message_def assistant_calls_def)
  with batch tc other unknown ok show ?thesis
    by (simp add: not_found_message_def r0_def fs_def tc tc_def [symmetric])
qed

text \<open>A requested call of type \<open>custom\<close> that names the unknown action \<open>foo\<close> leaves no
  tool message.\<close>

theorem other_type_is_skipped:
  "final_messages
     (run node_host (requests [custom_call]) new_swarm hi_store (new_agent (js ''Echo'') []) 0 1
        \<infinity> True None) =
   Some [user_says (js ''Hi''), assistant_calls [custom_call]]"
proof -
  have ok: "accepts (new_agent (js ''Echo'') []) (arrays hi_store 0)"
    by (simp add: accepts_def new_agent_def hi_store_def user_says_def validateInput_def
        validate_def)
  have answer: "createChatCompletion (requests [custom_call])
                  (createParams (new_agent (js ''Echo'') []) (arrays hi_store 0)
                     (spread [] (objects hi_store 1)) None False) =
                Inr \<lparr>rm_content = None, rm_tool_calls = Some [custom_call]\<rparr>"
    by (simp add: requests_def createParams_def hi_store_def user_says_def Let_def)
  have out: "output_checked (new_agent (js ''Echo'') [])
               (rm_content \<lparr>rm_content = None, rm_tool_calls = Some [custom_call]\<rparr>)"
    by (simp add: output_checked_def)
  have dispatch: "snd (handleToolCalls node_host [custom_call]
                        (agent_functions (new_agent (js ''Echo'') []))
                        (spread [] (objects hi_store 1)) sw3) =
                  Inr \<lparr>tr_messages = [], tr_agent = None, tr_context_variables = []\<rparr>" for sw3
    by (simp add: handleToolCalls_single handleToolCall_skipped custom_call_def)
  have turns: "(0::enat) < \<infinity>" by simp
  from run_one_round [OF ok answer out _ _ dispatch _ turns, of new_swarm]
  show ?thesis
    by (auto simp: final_messages_def hi_store_def assistant_message_def assistant_calls_def)
qed

text \<open>
  The dispatch table is an object literal: a name that no callable of the list has, but
  that \<open>Object.prototype\<close> has, is found there and called.
\<close>

lemma inherited_member_is_called:
  "final_messages
     (run node_host (requests [call_of (js ''1'') (js ''toString'')]) new_swarm hi_store
        (new_agent (js ''Echo'') []) 0 1 \<infinity> True None) =
   Some [user_says (js ''Hi''), assistant_calls [call_of (js ''1'') (js ''toString'')],
         tool_message (js ''[object Undefined]'') (js ''toString'') (js ''1'')]"
proof -
  define tc where "tc = call_of (js ''1'') (js ''toString'')"
  have ok: "accepts (new_agent (js ''Echo'') []) (arrays hi_store 0)"
    by (simp add: accepts_def new_agent_def hi_store_def user_says_def validateInput_def
        validate_def)
  have answer: "createChatCompletion (requests [tc])
                  (createParams (new_agent (js ''Echo'') []) (arrays hi_store 0)
                     (spread [] (objects hi_store 1)) None False) =
                Inr \<lparr>rm_content = None, rm_tool_calls = Some [tc]\<rparr>"
    by (simp add: requests_def createParams_def hi_store_def user_says_def Let_def)
  have out: "output_checked (new_agent (js ''Echo'') [])
               (rm_content \<lparr>rm_content = None, rm_tool_calls = Some [tc]\<rparr>)"
    by (simp add: output_checked_def)
  have dispatch: "snd (handleToolCalls node_host [tc]
                        (agent_functions (new_agent (js ''Echo'') []))
                        (spread [] (objects hi_store 1)) sw3) =
                  Inr \<lparr>tr_messages = [tool_message (js ''[object Undefined]'') (js ''toString'')
                                         (js ''1'')],
                       tr_agent = None, tr_context_variables = []\<rparr>" for sw3
    by (simp add: handleToolCalls_single handleToolCall_def try_call_def functionMap_def
        new_agent_def node_host_def node_objectPrototype_def serializeResult_def
        handleFunctionResult_def tc_def call_of_def spread_def Let_def)
  have turns: "(0::enat) < \<infinity>" by simp
  from run_one_round [OF ok answer out _ _ dispatch _ turns, of new_swarm]
  show ?thesis
    by (auto simp: final_messages_def hi_store_def assistant_message_def assistant_calls_def
        tc_def)
qed

section \<open>The turn counter in the two variants\<close>

lemma stream_loop_step:
  "enat (turns s) < max_turns \<Longrightarrow>
   stream_loop h p a max_turns execute_tools model_override s =
     (case stream_body h p a execute_tools model_override s of
        Abort e s' \<Rightarrow> Some (Some e, s')
      | Break s' \<Rightarrow> Some (None, s')
      | Continue s' \<Rightarrow> stream_loop h p a max_turns execute_tools model_override s')"
  by (subst stream_loop.simps) simp

lemma stream_body_plain:
  assumes v: "validateMessages h (currentAgent s) (arrays (heap s) (currentMessages s)) (this s) =
              (sw1, None)"
    and g: "getChatCompletionStream p (currentAgent s) (arrays (heap s) (currentMessages s))
              (objects (heap s) (currentContextVars s)) model_override = (chunks, None)"
    and t: "col_tool_calls (collect chunks) = []"
    and out: "validateOutput (currentAgent s) (col_content (collect chunks)) = Inr vr"
  shows "\<exists>s1. stream_body h p a execute_tools model_override s = Break s1"
  using assms
  by (simp add: stream_body_def stream_try_def Let_def split_beta)

lemma example_passes:
  "snd (validateMessages node_host (new_agent (js ''Echo'') []) [user_says (js ''Hi'')] sw) = None"
  by (intro validateMessages_accepts)
     (simp add: accepts_def new_agent_def user_says_def validateInput_def validate_def)

text \<open>
  C8. The turn counter is to go up once for every round of tool calls and not for a
  plain answer of the model, in both variants. In a pass of the batched loop it does
  (\<open>run_body_turns\<close>). In the streaming loop \<open>turns++\<close> stands right after the check of
  the input, outside the branch that executes the tool calls (\<open>stream_body_turns\<close>): for
  one plain answer of the model and no tool call, the batched loop ends with the counter
  at 0 and the streaming loop with the counter at 1.
\<close>

theorem streaming_counts_plain_answer:
  "final_turns
     (run_loop node_host (says (js ''Hello'')) \<infinity> True None
        (run_init node_host new_swarm hi_store (new_agent (js ''Echo'') []) 0 1)) = Some 0 \<and>
   final_turns
     (runWithStream node_host (says (js ''Hello'')) new_swarm hi_store (new_agent (js ''Echo'') [])
        0 1 \<infinity> True None) = Some 1"
proof -
  define a where "a = new_agent (js ''Echo'') []"
  define p where "p = says (js ''Hello'')"
  define s0 where "s0 = run_init node_host new_swarm hi_store a 0 1"
  define s0' where "s0' = run_state.extend s0 \<lparr>emitted = []\<rparr>"
  have s0: "currentAgent s0 = a" "turns s0 = 0"
    "arrays (heap s0) (currentMessages s0) = [user_says (js ''Hi'')]"
    "objects (heap s0) (currentContextVars s0) = []"
    by (simp_all add: s0_def)
  have s0': "currentAgent s0' = a" "turns s0' = 0"
    "arrays (heap s0') (currentMessages s0') = [user_says (js ''Hi'')]"
    "objects (heap s0') (currentContextVars s0') = []"
    by (simp_all add: s0'_def run_state.defs s0)
  \<comment> \<open>batched\<close>
  obtain sw1 where v: "validateMessages node_host a [user_says (js ''Hi'')] (this s0) = (sw1, None)"
    using example_passes [of "this s0"]
    by (cases "validateMessages node_host a [user_says (js ''Hi'')] (this s0)") (auto simp: a_def)
  define sw2 where
    "sw2 = (record_event node_host model_call (model_call_data None a [user_says (js ''Hi'')]) sw1)
           \<lparr>backend_calls := Suc (backend_calls sw1)\<rparr>"
  have g: "getChatCompletion p a [user_says (js ''Hi'')] [] None =
           Inr \<lparr>rm_content = Some (js ''Hello''), rm_tool_calls = None\<rparr>"
    by (simp add: getChatCompletion_def p_def says_def)
  obtain sw3 where c: "checkOutput node_host a
            (rm_content \<lparr>rm_content = Some (js ''Hello''), rm_tool_calls = None\<rparr>) sw2 = (sw3, None)"
    by (simp add: checkOutput_def validateOutput_def validate_def a_def new_agent_def)
  from run_body_answer [of node_host s0 sw1 p None _ sw3 True, unfolded s0,
      OF v g c [unfolded sw2_def]]
  have b: "run_body node_host p True None s0 =
           Break (s0\<lparr>this := sw3, heap := push (currentMessages s0)
                    (assistant_message \<lparr>rm_content = Some (js ''Hello''), rm_tool_calls = None\<rparr>)
                    (heap s0)\<rparr>)"
    by simp
  have batched: "final_turns (run_loop node_host p \<infinity> True None s0) = Some 0"
    by (simp add: run_loop_step s0 b final_turns_def)
  \<comment> \<open>streaming\<close>
  obtain sw1' where v': "validateMessages node_host a [user_says (js ''Hi'')] (this s0') =
                         (sw1', None)"
    using example_passes [of "this s0'"]
    by (cases "validateMessages node_host a [user_says (js ''Hi'')] (this s0')") (auto simp: a_def)
  have g': "getChatCompletionStream p a [user_says (js ''Hi'')] [] None =
            ([\<lparr>delta_content = Some (js ''Hello''), delta_tool_calls = None\<rparr>], None)"
    by (simp add: getChatCompletionStream_def p_def says_def)
  have col: "col_tool_calls (collect [\<lparr>delta_content = Some (js ''Hello''), delta_tool_calls = None\<rparr>])
             = []"
    "col_content (collect [\<lparr>delta_content = Some (js ''Hello''), delta_tool_calls = None\<rparr>])
             = js ''Hello''"
    by (simp_all add: collect_def applyDelta_def truthy_def)
  have out: "validateOutput a
               (col_content (collect [\<lparr>delta_content = Some (js ''Hello''), delta_tool_calls = None\<rparr>]))
             = Inr \<lparr>valid = True, errors = []\<rparr>"
    by (simp add: validateOutput_def validate_def a_def new_agent_def)
  from stream_body_plain [where h = node_host and s = s0' and p = p and model_override = None
      and a = a and execute_tools = True, unfolded s0', OF v' g' col(1) out]
  obtain s1 where b': "stream_body node_host p a True None s0' = Break s1"
    by auto
  have "turns s1 = 1"
    using stream_body_turns [of node_host p a True None s0'] b' v'
    by (simp add: state_of_def s0')
  have loop: "stream_loop node_host p a \<infinity> True None s0' = Some (None, s1)"
    by (simp add: stream_loop_step s0' b')
  have "runWithStream node_host p new_swarm hi_store a 0 1 \<infinity> True None =
        Some (stream_finish node_host (None, s1))"
    unfolding runWithStream_def s0_def [symmetric] s0'_def [symmetric] loop by simp
  with \<open>turns s1 = 1\<close>
  have streaming: "final_turns (runWithStream node_host p new_swarm hi_store a 0 1 \<infinity> True None)
                   = Some 1"
    by (simp add: stream_finish_def final_turns_def Let_def)
  from batched streaming show ?thesis
    by (simp only: p_def a_def s0_def)
qed

section \<open>The exported trace, read back\<close>

text \<open>
  C9. For every trace whose events carry data made of \<open>null\<close>, booleans, finite numbers,
  strings, arrays and plain objects (with no \<open>undefined\<close>, no \<open>NaN\<close> and no method anywhere
  in them) and whose timestamps are safe integers, the text that \<open>exportToJson\<close> returns is
  read by \<open>JSON.parse\<close> as the array of the events, in their order, each one the object of
  its timestamp, its type and its data. (\<open>canonical\<close> is the runtime's reading of the
  numerals that are not safe integers; the numbers of the data are among those it
  gives.)
\<close>

theorem trace_round_trip:
  assumes "\<forall>e \<in> set (events t). json_safe canonical (data e) \<and> \<bar>timestamp e\<bar> < 9007199254740992"
  shows "JSON_parse canonical (exportToJson t) = Some (JArr (map event_object (events t)))"
proof -
  have "json_safe canonical (JArr (map event_object (events t)))"
    using assms by (simp add: json_safe_list_map json_safe_event_object)
  then show ?thesis
    using exportToJson_serialize by (rule JSON_parse_serialize)
qed

lemma half_is_a_number: "float_text node_numeral (js ''0.5'')"
  by (simp add: float_text_def scan_numeral_def scan_minus_def scan_int_def scan_fraction_def
      scan_exponent_def integer_of_def parse_nat_def node_numeral_def decimal_of_def
      exponent_value_def number_text_def js_unfold is_digit_def Let_def)

theorem trace_round_trip_witness:
  "events (handoff_trace (JFloat (js ''0.5''))) =
     [\<lparr>timestamp = 1700000000000, etype = handoff,
       data = JObj [(js ''from'', JStr (js ''A'')), (js ''to'', JStr (js ''B'')),
                    (js ''context_update'', JObj [(js ''score'', JFloat (js ''0.5''))])]\<rparr>] \<and>
   json_safe node_numeral
     (JObj [(js ''from'', JStr (js ''A'')), (js ''to'', JStr (js ''B'')),
            (js ''context_update'', JObj [(js ''score'', JFloat (js ''0.5''))])]) \<and>
   \<bar>1700000000000 :: int\<bar> < 9007199254740992 \<and>
   JSON_parse node_numeral (exportToJson (handoff_trace (JFloat (js ''0.5'')))) =
     Some (JArr [JObj [(js ''timestamp'', JNum 1700000000000),
                       (js ''type'', JStr (js ''handoff'')),
                       (js ''data'',
                        JObj [(js ''from'', JStr (js ''A'')), (js ''to'', JStr (js ''B'')),
                              (js ''context_update'',
                               JObj [(js ''score'', JFloat (js ''0.5''))])])]])"
  using trace_round_trip [of "handoff_trace (JFloat (js ''0.5''))" node_numeral]
  by (simp add: handoff_trace_events event_object_def event_type_name_def half_is_a_number)

text \<open>
  A context update \<open>{score: NaN}\<close> is written as \<open>"score": null\<close>, so the event that is read
  back differs from the recorded one in its data.
\<close>

theorem not_a_number_is_read_as_null:
  "JSON_parse node_numeral (exportToJson (handoff_trace JNaN)) =
     Some (JArr (map event_object (events (handoff_trace JNull)))) \<and>
   JSON_parse node_numeral (exportToJson (handoff_trace JNaN)) \<noteq>
     Some (JArr (map event_object (events (handoff_trace JNaN))))"
proof -
  have "json_safe node_numeral (JArr (map event_object (events (handoff_trace JNull))))"
    by (simp add: json_safe_list_map json_safe_event_object handoff_trace_events)
  then have "JSON_parse node_numeral (exportToJson (handoff_trace JNull)) =
      Some (JArr (map event_object (events (handoff_trace JNull))))"
    using exportToJson_serialize by (rule JSON_parse_serialize)
  then show ?thesis
    by (simp add: exportToJson_NaN handoff_trace_events event_object_def)
qed

section \<open>The arguments of a run\<close>

text \<open>
  C10. \<open>run\<close> does not change its arguments: when a call ends, by returning or by
  throwing, the array of messages and the object of context variables it was given (and
  everything else allocated before the call) are as they were. What it returns are an
  array and an object of its own, and the array holds the messages it was given, in
  their order, followed by the new ones.
\<close>

theorem run_leaves_arguments:
  assumes ends: "run h p sw st a messages context_variables max_turns execute_tools
                   model_override = Some (sw', st', out)"
    and allocated: "messages < fresh st" "context_variables < fresh st"
  shows "arrays st' messages = arrays st messages \<and>
         objects st' context_variables = objects st context_variables \<and>
         (\<forall>r. out = Inr r \<longrightarrow>
              (\<exists>new. arrays st' (res_messages r) = arrays st messages @ new) \<and>
              res_messages r \<noteq> messages \<and> res_context_variables r \<noteq> context_variables)"
proof -
  define s0 where "s0 = run_init h sw st a messages context_variables"
  from ends obtain e s' where
    loop: "run_loop h p max_turns execute_tools model_override s0 = Some (e, s')"
    and fin: "run_finish h (e, s') = (sw', st', out)"
    by (auto simp: run_def s0_def)
  have "works_above (fresh st) s0"
    by (simp add: works_above_def s0_def)
  from run_loop_extends [OF loop this]
  have below: "\<forall>x<fresh st. arrays (heap s') x = arrays (heap s0) x \<and>
                             objects (heap s') x = objects (heap s0) x"
    and grows: "\<exists>new. arrays (heap s') (currentMessages s') =
                       arrays (heap s0) (currentMessages s0) @ new"
    and above: "fresh st \<le> currentMessages s'" "fresh st \<le> currentContextVars s'"
    by (auto simp: extends_def works_above_def)
  have st': "st' = heap s'"
    using fin by (auto simp: run_finish_def Let_def split: option.splits)
  have res: "res_messages r = currentMessages s' \<and> res_context_variables r = currentContextVars s'"
    if "out = Inr r" for r
    using fin that by (auto simp: run_finish_def Let_def split: option.splits)
  have "arrays st' messages = arrays st messages"
    "objects st' context_variables = objects st context_variables"
    using below allocated by (simp_all add: st' s0_def)
  moreover have "\<exists>new. arrays st' (res_messages r) = arrays st messages @ new"
    "res_messages r \<noteq> messages" "res_context_variables r \<noteq> context_variables"
    if "out = Inr r" for r
    using res [OF that] grows above allocated by (auto simp: st' s0_def)
  ultimately show ?thesis by blast
qed

theorem run_leaves_arguments_witness:
  "0 < fresh hi_store \<and> 1 < fresh hi_store \<and>
   map_option (\<lambda>st. arrays st 0)
     (final_store (run node_host (says (js ''Hello'')) new_swarm hi_store
        (new_agent (js ''Echo'') []) 0 1 \<infinity> True None)) = Some [user_says (js ''Hi'')] \<and>
   map_option (\<lambda>st. objects st 1)
     (final_store (run node_host (says (js ''Hello'')) new_swarm hi_store
        (new_agent (js ''Echo'') []) 0 1 \<infinity> True None)) = Some []"
proof -
  define result where
    "result = run node_host (says (js ''Hello'')) new_swarm hi_store (new_agent (js ''Echo'') [])
                0 1 \<infinity> True None"
  have ok: "accepts (new_agent (js ''Echo'') []) (arrays hi_store 0)"
    by (simp add: accepts_def new_agent_def user_says_def validateInput_def validate_def)
  have answer: "createChatCompletion (says (js ''Hello''))
                  (createParams (new_agent (js ''Echo'') []) (arrays hi_store 0)
                     (spread [] (objects hi_store 1)) None False) =
                Inr \<lparr>rm_content = Some (js ''Hello''), rm_tool_calls = None\<rparr>"
    by (simp add: says_def)
  have out: "validateOutput (new_agent (js ''Echo'') []) (js ''Hello'') =
             Inr \<lparr>valid = True, errors = []\<rparr>"
    by (simp add: validateOutput_def validate_def new_agent_def)
  have turns: "(0::enat) < \<infinity>" by simp
  from run_plain_answer [OF ok answer out turns, of node_host new_swarm True]
  obtain sw' st' r where ends: "result = Some (sw', st', Inr r)"
    unfolding result_def by blast
  have allocated: "(0::nat) < fresh hi_store" "(1::nat) < fresh hi_store"
    by simp_all
  from run_leaves_arguments [OF ends [unfolded result_def] allocated]
  have "map_option (\<lambda>st. arrays st 0) (final_store result) = Some [user_says (js ''Hi'')] \<and>
        map_option (\<lambda>st. objects st 1) (final_store result) = Some []"
    by (simp add: ends final_store_def)
  with allocated show ?thesis
    by (simp only: result_def)
qed

end
